theory Spec2Isabelle
  imports Complex_Main "HOL-Library.Sublist" "HOL-Library.List_Lexorder"
begin

section \<open>Python values\<close>

text \<open>
  A Python \<open>str\<close> is a sequence of Unicode code points; it is modelled as the list of
  its code points, so that \<open>==\<close>, \<open>startswith\<close>, \<open>strip\<close> and \<open>+\<close> work on
  code points as they do in Python. ASCII literals are written through \<open>ascii\<close>.
  Python's unbounded \<open>int\<close> is \<open>int\<close>. A finite Python \<open>float\<close> is modelled by the
  real number it denotes, so that comparisons are exact; float arithmetic rounds, and is
  a parameter of the model where the code computes with floats (\<open>float_ops\<close> below).
  The special values (NaN, infinities) are left out of the gift values and totals; the
  values read from the leaderboard's save file have them.
\<close>

type_synonym pystr = "nat list"

definition ascii :: "string \<Rightarrow> pystr" where
  "ascii s = map of_char s"

text \<open>\<open>str.isspace\<close> on one code point, and \<open>str.strip()\<close> with no argument.\<close>

definition isspace :: "nat \<Rightarrow> bool" where
  "isspace c \<longleftrightarrow>
     (0x9 \<le> c \<and> c \<le> 0xD) \<or> (0x1C \<le> c \<and> c \<le> 0x20) \<or> c = 0x85 \<or> c = 0xA0
     \<or> c = 0x1680 \<or> (0x2000 \<le> c \<and> c \<le> 0x200A) \<or> c = 0x2028 \<or> c = 0x2029
     \<or> c = 0x202F \<or> c = 0x205F \<or> c = 0x3000"

definition strip :: "pystr \<Rightarrow> pystr" where
  "strip s = rev (dropWhile isspace (rev (dropWhile isspace s)))"

definition startswith :: "pystr \<Rightarrow> pystr \<Rightarrow> bool" where
  "startswith s p \<longleftrightarrow> prefix p s"

text \<open>\<open>str(n)\<close> for a non-negative integer: its decimal digits.\<close>

fun str_of_nat :: "nat \<Rightarrow> pystr" where
  "str_of_nat n = (if n < 10 then [48 + n] else str_of_nat (n div 10) @ [48 + n mod 10])"

declare str_of_nat.simps [simp del]

text \<open>
  A Python \<open>dict\<close> keeps its keys in insertion order and holds each key once. It is
  modelled as the list of its items in that order. Assigning to a key that is present
  replaces the value in place, assigning to a new key appends an item.
\<close>

type_synonym ('k, 'v) pydict = "('k \<times> 'v) list"

definition dict_keys :: "('k, 'v) pydict \<Rightarrow> 'k list" where
  "dict_keys d = map fst d"

definition dict_values :: "('k, 'v) pydict \<Rightarrow> 'v list" where
  "dict_values d = map snd d"

definition dict_mem :: "'k \<Rightarrow> ('k, 'v) pydict \<Rightarrow> bool" where
  "dict_mem k d \<longleftrightarrow> k \<in> set (map fst d)"

definition dict_get :: "('k, 'v) pydict \<Rightarrow> 'k \<Rightarrow> 'v option" where
  "dict_get d k = map_of d k"

definition dict_set :: "('k, 'v) pydict \<Rightarrow> 'k \<Rightarrow> 'v \<Rightarrow> ('k, 'v) pydict" where
  "dict_set d k v =
     (if dict_mem k d then map (\<lambda>(k', v'). if k' = k then (k', v) else (k', v')) d
      else d @ [(k, v)])"

definition dict_del :: "('k, 'v) pydict \<Rightarrow> 'k \<Rightarrow> ('k, 'v) pydict" where
  "dict_del d k = filter (\<lambda>(k', v'). k' \<noteq> k) d"

text \<open>A dict comprehension \<open>{k: v for ...}\<close> assigns its items one after the other.\<close>

definition dict_of_items :: "('k \<times> 'v) list \<Rightarrow> ('k, 'v) pydict" where
  "dict_of_items kvs = foldl (\<lambda>d (k, v). dict_set d k v) [] kvs"

datatype pyerror = KeyError | TypeError | AttributeError | OverflowError | UnicodeEncodeError

text \<open>
  Python's float arithmetic, as far as the code uses it: \<open>fl_mul_int x n\<close> is
  \<open>x * n\<close> for a float \<open>x\<close> and an int \<open>n\<close>, that is the float the product rounds
  to, or the \<open>OverflowError\<close> raised when \<open>n\<close> is too large to be converted to a
  float; \<open>fl_add x y\<close> is the float the sum rounds to.
\<close>

record float_ops =
  fl_mul_int :: "real \<Rightarrow> int \<Rightarrow> pyerror + real"
  fl_add :: "real \<Rightarrow> real \<Rightarrow> real"


datatype 'a pyfile = NoFile | Truncated | Holds 'a

section \<open>danmaku\_listener.py: VoteManager\<close>

record danmaku_message =
  platform :: pystr
  user_id :: pystr
  username :: pystr
  content :: pystr

text \<open>
  The state of a \<open>VoteManager\<close>. The callback is an opaque value of type \<open>'cb\<close>.
  Two fields record the effects that leave the object: \<open>timers\<close> holds the expiry time
  of every timer thread that \<open>start_vote\<close> has started, and \<open>callback_log\<close> holds the
  calls \<open>vote_callback(winner, counts)\<close> made so far, in order. The callback is taken
  not to write to the manager (the one of \<open>live_game.py\<close> only reads \<open>votes\<close>).
\<close>

record 'cb vote_manager =
  vote_duration :: int
  votes :: "(pystr, (pystr, pystr) pydict) pydict"
  option_patterns :: "(pystr, pystr list) pydict"
  voting_active :: bool
  vote_start_time :: "real option"
  vote_callback :: "'cb option"
  timers :: "real list"
  callback_log :: "('cb \<times> pystr \<times> (pystr, nat) pydict) list"

definition init_vote_manager :: "int \<Rightarrow> 'cb vote_manager" where
  "init_vote_manager duration =
     \<lparr>vote_duration = duration, votes = [], option_patterns = [], voting_active = False,
      vote_start_time = None, vote_callback = None, timers = [], callback_log = []\<rparr>"

definition option_key :: "nat \<Rightarrow> pystr" where
  "option_key i = str_of_nat (i + 1)"

definition patterns_of :: "pystr \<Rightarrow> pystr list" where
  "patterns_of key = [key, [0x9009] @ key, [0x9009, 0x62E9] @ key, key @ [0x53F7]]"

text \<open>
  \<open>start_vote(options, callback)\<close> at time \<open>now\<close> (the value of \<open>time.time()\<close>);
  it returns \<open>vote_duration\<close>.
\<close>

definition start_vote ::
  "'cb vote_manager \<Rightarrow> pystr list \<Rightarrow> 'cb option \<Rightarrow> real \<Rightarrow> int \<times> 'cb vote_manager" where
  "start_vote s options callback now =
     (vote_duration s,
      s\<lparr>votes := dict_of_items (map (\<lambda>i. (option_key i, [])) [0..<length options]),
        option_patterns :=
          foldl (\<lambda>d i. dict_set d (option_key i) (patterns_of (option_key i))) []
            [0..<length options],
        voting_active := True,
        vote_start_time := Some now,
        vote_callback := callback,
        timers := timers s @ [now + real_of_int (vote_duration s)]\<rparr>)"

definition get_vote_counts :: "'cb vote_manager \<Rightarrow> (pystr, nat) pydict" where
  "get_vote_counts s = dict_of_items (map (\<lambda>(k, v). (k, length v)) (votes s))"

text \<open>
  \<open>max(iterable, key=f)\<close> on a non-empty iterable: the first item whose key is not
  exceeded by any other.
\<close>

fun max_scan :: "('a \<Rightarrow> nat) \<Rightarrow> 'a \<Rightarrow> 'a list \<Rightarrow> 'a" where
  "max_scan f best [] = best"
| "max_scan f best (x # xs) = max_scan f (if f x > f best then x else best) xs"

text \<open>
  \<open>counts[k]\<close> inside the key function of \<open>max\<close>; \<open>k\<close> is a key of \<open>counts\<close>
  there, so the lookup finds it.
\<close>

definition count_at :: "(pystr, nat) pydict \<Rightarrow> pystr \<Rightarrow> nat" where
  "count_at counts k = (case dict_get counts k of Some c \<Rightarrow> c | None \<Rightarrow> 0)"

definition pick_winner :: "(pystr, nat) pydict \<Rightarrow> pystr" where
  "pick_winner counts =
     (case dict_keys counts of
        [] \<Rightarrow> ascii ''1''
      | k # ks \<Rightarrow> max_scan (count_at counts) k ks)"

definition end_vote :: "'cb vote_manager \<Rightarrow> (pystr \<times> (pystr, nat) pydict) \<times> 'cb vote_manager" where
  "end_vote s =
     (let s1 = s\<lparr>voting_active := False\<rparr>;
          counts = get_vote_counts s1;
          winner = pick_winner counts;
          s2 = (case vote_callback s1 of
                  Some cb \<Rightarrow> s1\<lparr>callback_log := callback_log s1 @ [(cb, winner, counts)]\<rparr>
                | None \<Rightarrow> s1)
      in ((winner, counts), s2))"

text \<open>The body of a timer thread once its sleep is over.\<close>

definition vote_timer :: "'cb vote_manager \<Rightarrow> 'cb vote_manager" where
  "vote_timer s = (if voting_active s then snd (end_vote s) else s)"

text \<open>
  \<open>process_danmaku\<close>. The removal loop takes the voter out of every option's ballots;
  the two nested \<open>for\<close> loops are \<open>try_patterns\<close> (inner) and \<open>try_options\<close> (outer).
  The inner loop yields \<open>None\<close> when it runs to its end, and otherwise the outcome of
  the \<open>return\<close> or of the \<open>KeyError\<close> raised by \<open>self.votes[key]\<close>.
\<close>

definition remove_voter ::
  "pystr \<Rightarrow> (pystr, (pystr, pystr) pydict) pydict \<Rightarrow> (pystr, (pystr, pystr) pydict) pydict" where
  "remove_voter uid vs = map (\<lambda>(k, b). (k, if dict_mem uid b then dict_del b uid else b)) vs"

definition cast_ballot ::
  "pystr \<Rightarrow> pystr \<Rightarrow> pystr \<Rightarrow> (pystr, (pystr, pystr) pydict) pydict
     \<Rightarrow> (pystr, (pystr, pystr) pydict) pydict" where
  "cast_ballot key uid uname vs =
     map (\<lambda>(k, b). if k = key then (k, dict_set b uid uname) else (k, b)) vs"

fun try_patterns ::
  "(pystr, (pystr, pystr) pydict) pydict \<Rightarrow> danmaku_message \<Rightarrow> pystr \<Rightarrow> pystr \<Rightarrow> pystr list
     \<Rightarrow> (pyerror + pystr \<times> (pystr, (pystr, pystr) pydict) pydict) option" where
  "try_patterns vs msg cont key [] = None"
| "try_patterns vs msg cont key (pattern # rest) =
     (if cont = pattern \<or> startswith cont pattern then
        (case dict_get vs key of
           None \<Rightarrow> Some (Inl KeyError)
         | Some ballots \<Rightarrow>
             if \<not> dict_mem (user_id msg) ballots then
               Some (Inr (key, cast_ballot key (user_id msg) (username msg)
                                 (remove_voter (user_id msg) vs)))
             else try_patterns vs msg cont key rest)
      else try_patterns vs msg cont key rest)"

fun try_options ::
  "(pystr, (pystr, pystr) pydict) pydict \<Rightarrow> danmaku_message \<Rightarrow> pystr
     \<Rightarrow> (pystr \<times> pystr list) list
     \<Rightarrow> (pyerror + pystr \<times> (pystr, (pystr, pystr) pydict) pydict) option" where
  "try_options vs msg cont [] = None"
| "try_options vs msg cont ((key, patterns) # rest) =
     (case try_patterns vs msg cont key patterns of
        Some r \<Rightarrow> Some r
      | None \<Rightarrow> try_options vs msg cont rest)"

definition process_danmaku ::
  "'cb vote_manager \<Rightarrow> danmaku_message \<Rightarrow> pyerror + pystr option \<times> 'cb vote_manager" where
  "process_danmaku s msg =
     (if \<not> voting_active s then Inr (None, s)
      else
        (case try_options (votes s) msg (strip (content msg)) (option_patterns s) of
           None \<Rightarrow> Inr (None, s)
         | Some (Inl e) \<Rightarrow> Inl e
         | Some (Inr (key, vs')) \<Rightarrow> Inr (Some key, s\<lparr>votes := vs'\<rparr>)))"

text \<open>A run of \<open>process_danmaku\<close> calls; an exception ends it.\<close>

fun process_all :: "'cb vote_manager \<Rightarrow> danmaku_message list \<Rightarrow> pyerror + 'cb vote_manager" where
  "process_all s [] = Inr s"
| "process_all s (m # ms) =
     (case process_danmaku s m of Inl e \<Rightarrow> Inl e | Inr (r, s') \<Rightarrow> process_all s' ms)"

text \<open>
  The options whose ballots hold a voter, in option order; whether a stripped chat text
  matches one of an option's patterns; and the first option, in option order, that the
  text matches and that does not yet hold the voter's ballot.
\<close>

definition options_holding ::
  "pystr \<Rightarrow> (pystr, (pystr, pystr) pydict) pydict \<Rightarrow> pystr list" where
  "options_holding uid vs = map fst (filter (\<lambda>(k, b). dict_mem uid b) vs)"

definition matches_option :: "pystr \<Rightarrow> pystr \<Rightarrow> bool" where
  "matches_option cont key \<longleftrightarrow>
     list_ex (\<lambda>pattern. cont = pattern \<or> startswith cont pattern) (patterns_of key)"

definition vote_target ::
  "(pystr, (pystr, pystr) pydict) pydict \<Rightarrow> pystr \<Rightarrow> pystr \<Rightarrow> pystr list \<Rightarrow> pystr option" where
  "vote_target vs uid cont keys =
     find (\<lambda>key. matches_option cont key \<and> key \<notin> set (options_holding uid vs)) keys"

text \<open>The shape of the manager's tables in a session over \<open>n\<close> options.\<close>

definition vm_inv :: "nat \<Rightarrow> 'cb vote_manager \<Rightarrow> bool" where
  "vm_inv n s \<longleftrightarrow>
     map fst (votes s) = map option_key [0..<n]
     \<and> option_patterns s = map (\<lambda>i. (option_key i, patterns_of (option_key i))) [0..<n]
     \<and> (\<forall>u. length (options_holding u (votes s)) \<le> 1)"

text \<open>A session of two options, a chat message, and the session after one vote.\<close>

definition chat :: "string \<Rightarrow> string \<Rightarrow> danmaku_message" where
  "chat uid text =
     \<lparr>platform = ascii ''mock'', user_id = ascii uid, username = ascii uid, content = ascii text\<rparr>"

definition open_session :: "nat vote_manager" where
  "open_session = snd (start_vote (init_vote_manager 15) [ascii ''explore'', ascii ''rest''] (Some 0) 0)"

definition voted_once :: "nat vote_manager" where
  "voted_once = open_session\<lparr>votes := [([49], [(ascii ''u7'', ascii ''u7'')]), ([50], [])]\<rparr>"

text \<open>
  A session of ten options, and its ballots when the voter \<open>u7\<close> is held by the option
  of a given key.
\<close>

definition crowded_session :: "nat vote_manager" where
  "crowded_session = snd (start_vote (init_vote_manager 15) (replicate 10 (ascii ''go'')) (Some 0) 0)"

definition crowded_votes :: "pystr \<Rightarrow> (pystr, (pystr, pystr) pydict) pydict" where
  "crowded_votes key =
     map (\<lambda>i. (option_key i, if option_key i = key then [(ascii ''u7'', ascii ''u7'')] else []))
       [0..<10]"

text \<open>The number of ballots of the option at a position, and the session after a re-vote.\<close>

definition tally :: "'cb vote_manager \<Rightarrow> nat \<Rightarrow> nat" where
  "tally s j = length (snd (votes s ! j))"

definition voted_twice :: "nat vote_manager" where
  "voted_twice = open_session\<lparr>votes := [([49], []), ([50], [(ascii ''u7'', ascii ''u7'')])]\<rparr>"

section \<open>gift\_system.py: GiftProcessor\<close>



record gift_message =
  platform_gm :: pystr
  user_id_gm :: pystr
  username_gm :: pystr
  gift_name :: pystr
  gift_count :: int
  gift_value :: real













record donor_stats =
  user_id_ds :: pystr
  username_ds :: pystr
  platform_ds :: pystr
  total_value :: real
  total_gifts :: int
  last_gift_time :: pystr
  contribution_rank :: int



text \<open>
  \<open>sorted(xs, key=f, reverse=True)\<close>: the items in descending order of their keys,
  items of equal key in the order they had (Python's sort is stable, also when
  reversed).
\<close>

definition sorted_reverse :: "('a \<Rightarrow> real) \<Rightarrow> 'a list \<Rightarrow> 'a list" where
  "sorted_reverse f xs = sort_key (\<lambda>x. - f x) xs"



text \<open>
  \<open>_update_rankings\<close>: the donors are sorted with their keys, and every donor gets the
  position of its key in the sorted list, counted from 1.
\<close>

definition position_of :: "'k \<Rightarrow> 'k list \<Rightarrow> nat" where
  "position_of k ks = length (takeWhile (\<lambda>k'. k' \<noteq> k) ks)"

definition update_rankings :: "(pystr, donor_stats) pydict \<Rightarrow> (pystr, donor_stats) pydict" where
  "update_rankings ds =
     (let sorted_donors = sorted_reverse (\<lambda>(k, d). total_value d) ds
      in map (\<lambda>(k, d). (k, d\<lparr>contribution_rank :=
                                 int (position_of k (dict_keys sorted_donors)) + 1\<rparr>)) ds)"

text \<open>
  \<open>_update_donor_stats(gift, value)\<close>, with \<open>now\<close> the text of
  \<open>datetime.now().isoformat()\<close>; \<open>total_value += value\<close> is a float addition.
\<close>

definition donor_key :: "gift_message \<Rightarrow> pystr" where
  "donor_key gift = platform_gm gift @ ascii ''_'' @ user_id_gm gift"

definition update_donor_stats ::
  "float_ops \<Rightarrow> (pystr, donor_stats) pydict \<Rightarrow> gift_message \<Rightarrow> real \<Rightarrow> pystr
     \<Rightarrow> (pystr, donor_stats) pydict" where
  "update_donor_stats ops ds gift v now =
     (let key = donor_key gift;
          ds1 = (if \<not> dict_mem key ds
                 then dict_set ds key
                        \<lparr>user_id_ds = user_id_gm gift, username_ds = username_gm gift,
                         platform_ds = platform_gm gift, total_value = 0, total_gifts = 0,
                         last_gift_time = [], contribution_rank = 0\<rparr>
                 else ds);
          ds2 = map (\<lambda>(k, stats). if k = key
                      then (k, stats\<lparr>total_value := fl_add ops (total_value stats) v,
                                      total_gifts := total_gifts stats + gift_count gift,
                                      last_gift_time := now,
                                      username_ds := username_gm gift\<rparr>)
                      else (k, stats)) ds1
      in update_rankings ds2)"





text \<open>
  The donors in the order of \<open>sorted(donor_stats.values(), key=total_value,
  reverse=True)\<close>, as \<open>_update_rankings\<close> and \<open>get_top_donors\<close> compute it.
\<close>

definition donors_by_value :: "(pystr, donor_stats) pydict \<Rightarrow> (pystr, donor_stats) pydict" where
  "donors_by_value ds = sorted_reverse (\<lambda>(k, d). total_value d) ds"

text \<open>
  Float arithmetic on the values of the examples below (integers and binary fractions
  of small size), where it is exact. A processor without history, and gifts of two
  donors.
\<close>

definition small_ops :: float_ops where
  "small_ops = \<lparr>fl_mul_int = (\<lambda>x n. Inr (x * real_of_int n)), fl_add = (\<lambda>x y. x + y)\<rparr>"


definition gift_of :: "string \<Rightarrow> real \<Rightarrow> int \<Rightarrow> gift_message" where
  "gift_of uid v n = \<lparr>platform_gm = ascii ''mock'', user_id_gm = ascii uid,
     username_gm = ascii uid, gift_name = ascii ''rocket'', gift_count = n, gift_value = v\<rparr>"

definition gift_A1 :: gift_message where
  "gift_A1 = gift_of ''A'' 2 1"

definition gift_B :: gift_message where
  "gift_B = gift_of ''B'' 5 1"

definition gift_A2 :: gift_message where
  "gift_A2 = gift_of ''A'' 3 1"

definition three_gifts :: "(pystr, donor_stats) pydict" where
  "three_gifts =
     update_donor_stats small_ops
       (update_donor_stats small_ops
          (update_donor_stats small_ops [] gift_A1 2 (ascii ''2024-05-01T20:00:01''))
          gift_B 5 (ascii ''2024-05-01T20:00:02''))
       gift_A2 3 (ascii ''2024-05-01T20:00:03'')"

definition two_gifts :: "(pystr, donor_stats) pydict" where
  "two_gifts =
     update_donor_stats small_ops
       (update_donor_stats small_ops [] gift_A1 2 (ascii ''2024-05-01T20:00:01''))
       gift_B 5 (ascii ''2024-05-01T20:00:02'')"

section \<open>leaderboard.py: Leaderboard\<close>

text \<open>
  What \<open>json.load\<close> returns and \<open>json.dump\<close> accepts: \<open>None\<close>, booleans,
  numbers, strings, lists and dicts with string keys. A finite number is the real it
  denotes; the floats \<open>nan\<close>, \<open>inf\<close> and \<open>-inf\<close>, which \<open>json\<close> reads and
  writes as well, are kept apart. The items of a \<open>JObj\<close> stand for a dict, whose keys
  are distinct. A save file that was written holds the value written: \<open>json.load\<close>
  gives back what \<open>json.dump\<close> wrote.
\<close>

datatype nonfinite = NaN | PosInf | NegInf

datatype json =
  JNull
  | JBool bool
  | JNum real
  | JNonFinite nonfinite
  | JStr pystr
  | JArr "json list"
  | JObj "(pystr \<times> json) list"


datatype LeaderboardType = CONTRIBUTION | VOTE_PARTICIPATION | LUCKY | GAME_PROGRESS

fun type_value :: "LeaderboardType \<Rightarrow> pystr" where
  "type_value CONTRIBUTION = ascii ''contribution''"
| "type_value VOTE_PARTICIPATION = ascii ''vote''"
| "type_value LUCKY = ascii ''lucky''"
| "type_value GAME_PROGRESS = ascii ''progress''"

text \<open>
  A \<open>LeaderboardEntry\<close>; the fields that share a name with a field above end in
  \<open>_le\<close>. The annotations of a dataclass are not checked, and an entry built from the
  save file holds whatever the file holds, so every field is a \<open>json\<close> value.
\<close>

record leaderboard_entry =
  user_id_le :: json
  username_le :: json
  platform_le :: json
  score :: json
  extra_data :: json
  last_update :: json

text \<open>
  The state of a \<open>Leaderboard\<close>. \<open>game_stats\<close> is the \<open>GameStats\<close> object as the
  dict of its fields (what \<open>asdict\<close> gives), \<open>history\<close> is the list of events (or
  whatever \<open>_load\<close> found under that key), and \<open>save_file\<close> holds what the save
  file holds.
\<close>

record leaderboard =
  boards :: "(pystr, (pystr, leaderboard_entry) pydict) pydict"
  game_stats :: "(pystr, json) pydict"
  history :: json
  save_file :: "json pyfile"

definition new_game_stats :: "pystr \<Rightarrow> (pystr, json) pydict" where
  "new_game_stats now =
     [(ascii ''character_name'', JStr []),
      (ascii ''character_realm'', JStr [0x51E1, 0x4EBA]),
      (ascii ''character_cultivation'', JNum 0),
      (ascii ''total_choices'', JNum 0),
      (ascii ''total_stories'', JNum 0),
      (ascii ''breakthroughs'', JNum 0),
      (ascii ''deaths'', JNum 0),
      (ascii ''total_votes'', JNum 0),
      (ascii ''winning_votes'', JNum 0),
      (ascii ''total_viewers'', JNum 0),
      (ascii ''peak_viewers'', JNum 0),
      (ascii ''total_gifts_value'', JNum 0),
      (ascii ''total_gifts_count'', JNum 0),
      (ascii ''start_time'', JStr now),
      (ascii ''last_update'', JStr now),
      (ascii ''play_time_seconds'', JNum 0)]"

text \<open>
  \<open>GameStats(**d)\<close>: every field has a default, a key that is no field is a
  \<open>TypeError\<close>.
\<close>

definition game_stats_of :: "pystr \<Rightarrow> (pystr, json) pydict \<Rightarrow> pyerror + (pystr, json) pydict" where
  "game_stats_of now d =
     (if list_all (\<lambda>(k, v). dict_mem k (new_game_stats now)) d
      then Inr (map (\<lambda>(k, dflt). (k, case dict_get d k of Some v \<Rightarrow> v | None \<Rightarrow> dflt))
                  (new_game_stats now))
      else Inl TypeError)"

definition empty_boards :: "(pystr, (pystr, leaderboard_entry) pydict) pydict" where
  "empty_boards =
     [(type_value CONTRIBUTION, []), (type_value VOTE_PARTICIPATION, []), (type_value LUCKY, [])]"

text \<open>
  \<open>asdict(entry)\<close> and \<open>LeaderboardEntry(**v)\<close>. The latter raises \<open>TypeError\<close>
  when \<open>v\<close> is no dict, holds a key that is no field, or lacks one of the four fields
  without a default; it takes the values as they are.
\<close>

definition entry_fields :: "pystr list" where
  "entry_fields = [ascii ''user_id'', ascii ''username'', ascii ''platform'', ascii ''score'',
     ascii ''extra_data'', ascii ''last_update'']"


definition entry_of :: "pystr \<Rightarrow> json \<Rightarrow> pyerror + leaderboard_entry" where
  "entry_of now v =
     (case v of
        JObj d \<Rightarrow>
          if \<not> list_all (\<lambda>(k, x). k \<in> set entry_fields) d then Inl TypeError
          else
            (case (dict_get d (ascii ''user_id''), dict_get d (ascii ''username''),
                   dict_get d (ascii ''platform''), dict_get d (ascii ''score'')) of
               (Some u, Some n, Some p, Some sc) \<Rightarrow>
                 Inr \<lparr>user_id_le = u, username_le = n, platform_le = p, score = sc,
                      extra_data = (case dict_get d (ascii ''extra_data'') of
                                      Some x \<Rightarrow> x | None \<Rightarrow> JObj []),
                      last_update = (case dict_get d (ascii ''last_update'') of
                                       Some t \<Rightarrow> t | None \<Rightarrow> JStr now)\<rparr>
             | _ \<Rightarrow> Inl TypeError)
      | _ \<Rightarrow> Inl TypeError)"




text \<open>
  \<open>_load\<close>. \<open>entries_of\<close> is the dict comprehension over one board of the file, which
  raises when an entry does; \<open>load_boards\<close> is the loop over the boards of the file,
  which yields the boards it has set and whether it ran to its end. An exception (also
  the one of \<open>json.load\<close> on a file that was cut short) ends \<open>_load\<close> and leaves what
  was set before it; \<open>_load\<close> itself never raises.
\<close>

fun entries_of ::
  "pystr \<Rightarrow> (pystr \<times> json) list \<Rightarrow> pyerror + (pystr \<times> leaderboard_entry) list" where
  "entries_of now [] = Inr []"
| "entries_of now ((k, v) # rest) =
     (case entry_of now v of
        Inl e \<Rightarrow> Inl e
      | Inr entry \<Rightarrow>
          (case entries_of now rest of
             Inl e \<Rightarrow> Inl e
           | Inr es \<Rightarrow> Inr ((k, entry) # es)))"

fun load_boards ::
  "pystr \<Rightarrow> (pystr, (pystr, leaderboard_entry) pydict) pydict \<Rightarrow> (pystr \<times> json) list
     \<Rightarrow> (pystr, (pystr, leaderboard_entry) pydict) pydict \<times> bool" where
  "load_boards now bs [] = (bs, True)"
| "load_boards now bs ((board_type, entries) # rest) =
     (if dict_mem board_type bs then
        (case entries of
           JObj items \<Rightarrow>
             (case entries_of now items of
                Inl e \<Rightarrow> (bs, False)
              | Inr es \<Rightarrow> load_boards now (dict_set bs board_type (dict_of_items es)) rest)
         | _ \<Rightarrow> (bs, False))
      else load_boards now bs rest)"

definition load :: "leaderboard \<Rightarrow> pystr \<Rightarrow> leaderboard" where
  "load s now =
     (case save_file s of
        NoFile \<Rightarrow> s
      | Truncated \<Rightarrow> s
      | Holds (JObj data) \<Rightarrow>
          (case (case dict_get data (ascii ''boards'') of
                   None \<Rightarrow> Some []
                 | Some (JObj bs) \<Rightarrow> Some bs
                 | Some _ \<Rightarrow> None) of
             None \<Rightarrow> s
           | Some file_boards \<Rightarrow>
               (case load_boards now (boards s) file_boards of
                  (bs, False) \<Rightarrow> s\<lparr>boards := bs\<rparr>
                | (bs, True) \<Rightarrow>
                    (let s1 = s\<lparr>boards := bs\<rparr> in
                     case (case dict_get data (ascii ''game_stats'') of
                             None \<Rightarrow> Some s1
                           | Some (JObj g) \<Rightarrow>
                               (case game_stats_of now g of
                                  Inl e \<Rightarrow> None
                                | Inr gs \<Rightarrow> Some (s1\<lparr>game_stats := gs\<rparr>))
                           | Some _ \<Rightarrow> None) of
                       None \<Rightarrow> s1
                     | Some s2 \<Rightarrow>
                         (case dict_get data (ascii ''history'') of
                            None \<Rightarrow> s2\<lparr>history := JArr []\<rparr>
                          | Some h \<Rightarrow> s2\<lparr>history := h\<rparr>))))
      | Holds _ \<Rightarrow> s)"

text \<open>\<open>Leaderboard(save_file)\<close>: the empty boards, then \<open>_load\<close>.\<close>

definition new_leaderboard :: "json pyfile \<Rightarrow> pystr \<Rightarrow> leaderboard" where
  "new_leaderboard f now =
     load \<lparr>boards = empty_boards, game_stats = new_game_stats now, history = JArr [],
           save_file = f\<rparr> now"














text \<open>
  The shape every \<open>Leaderboard\<close> has: the three boards of \<open>__init__\<close>, each a dict.
\<close>

definition leaderboard_ok :: "leaderboard \<Rightarrow> bool" where
  "leaderboard_ok s \<longleftrightarrow>
     dict_keys (boards s) = dict_keys empty_boards
     \<and> list_all (\<lambda>(t, b). distinct (dict_keys b)) (boards s)"








section \<open>ai\_storyteller.py: parsing a narrative response\<close>

text \<open>
  The functions of Python's \<open>re\<close> module that \<open>_parse_story_response\<close> calls are
  parameters of the model: \<open>re_findall pattern string dotall\<close> answers the texts of
  group 1 of all matches (\<open>re.findall\<close> with one group), \<open>re_match pattern string\<close>
  the text of group 1 of a match at the start, if there is one, and
  \<open>re_sub pattern repl string dotall\<close> the text after substitution. The patterns are
  the ones of the source, as code points.
\<close>

record regex_engine =
  re_findall :: "pystr \<Rightarrow> pystr \<Rightarrow> bool \<Rightarrow> pystr list"
  re_match :: "pystr \<Rightarrow> pystr \<Rightarrow> pystr option"
  re_sub :: "pystr \<Rightarrow> pystr \<Rightarrow> pystr \<Rightarrow> bool \<Rightarrow> pystr"

definition option_pattern :: pystr where
  "option_pattern =
     [0x5C, 0x5B, 0x9009, 0x9879, 0x5C, 0x64, 0x2B, 0x5C, 0x5D, 0x5C, 0x73, 0x2A,
      0x28, 0x2E, 0x2B, 0x3F, 0x29, 0x28, 0x3F, 0x3D, 0x5C, 0x5B, 0x9009, 0x9879,
      0x5C, 0x64, 0x2B, 0x5C, 0x5D, 0x7C, 0x5C, 0x5B, 0x4FEE, 0x4E3A, 0x7C, 0x24,
      0x7C, 0x5C, 0x5B, 0x751F, 0x547D, 0x7C, 0x5C, 0x5B, 0x7075, 0x529B, 0x7C, 0x5C,
      0x5B, 0x7269, 0x54C1, 0x7C, 0x5C, 0x5B, 0x7A81, 0x7834, 0x29]"

definition option_pattern2 :: pystr where
  "option_pattern2 =
     [0x5E, 0x5C, 0x64, 0x2B, 0x5B, 0x2E, 0x3001, 0x5D, 0x5C, 0x73, 0x2A, 0x28,
      0x2E, 0x2B, 0x3F, 0x29, 0x24]"

definition options_tail_pattern :: pystr where
  "options_tail_pattern = [0x5C, 0x5B, 0x9009, 0x9879, 0x5C, 0x64, 0x2B, 0x5C, 0x5D, 0x2E, 0x2B]"

definition effect_tag_patterns :: "pystr list" where
  "effect_tag_patterns =
     [[0x5C, 0x5B, 0x4FEE, 0x4E3A, 0x5B, 0x2B, 0x2D, 0x5D, 0x5C, 0x64, 0x2B, 0x5C, 0x5D],
      [0x5C, 0x5B, 0x751F, 0x547D, 0x5B, 0x2B, 0x2D, 0x5D, 0x5C, 0x64, 0x2B, 0x5C, 0x5D],
      [0x5C, 0x5B, 0x7075, 0x529B, 0x5B, 0x2B, 0x2D, 0x5D, 0x5C, 0x64, 0x2B, 0x5C, 0x5D],
      [0x5C, 0x5B, 0x7269, 0x54C1, 0x3A, 0x2E, 0x2B, 0x3F, 0x5C, 0x5D],
      [0x5C, 0x5B, 0x7A81, 0x7834, 0x5C, 0x5D]]"

definition default_options :: "pystr list" where
  "default_options =
     [[0x7EE7, 0x7EED, 0x63A2, 0x7D22],
      [0x539F, 0x5730, 0x4FEE, 0x70BC],
      [0x5BFB, 0x627E, 0x673A, 0x7F18]]"

text \<open>\<open>response.split('\n')\<close>: the pieces between the line feeds, at least one.\<close>

fun split_lines :: "pystr \<Rightarrow> pystr list" where
  "split_lines [] = [[]]"
| "split_lines (c # cs) =
     (if c = 0xA then [] # split_lines cs
      else (case split_lines cs of
              [] \<Rightarrow> [[c]]
            | line # lines \<Rightarrow> (c # line) # lines))"

text \<open>The loop over the lines, which appends the stripped group of every line that matches.\<close>

fun numbered_options :: "regex_engine \<Rightarrow> pystr list \<Rightarrow> pystr list \<Rightarrow> pystr list" where
  "numbered_options re opts [] = opts"
| "numbered_options re opts (line # lines) =
     (case re_match re option_pattern2 (strip line) of
        Some group1 \<Rightarrow> numbered_options re (opts @ [strip group1]) lines
      | None \<Rightarrow> numbered_options re opts lines)"

definition parse_story_response :: "regex_engine \<Rightarrow> pystr \<Rightarrow> pystr \<times> pystr list" where
  "parse_story_response re response =
     (let found = re_findall re option_pattern response True;
          options1 = map strip (filter (\<lambda>opt. strip opt \<noteq> []) found);
          options2 = (if options1 = [] then numbered_options re options1 (split_lines response)
                      else options1);
          story1 = re_sub re options_tail_pattern [] response True;
          story2 = foldl (\<lambda>story pattern. re_sub re pattern [] story False) story1
                     effect_tag_patterns;
          story = strip story2;
          options3 = (if options2 = [] then default_options else options2)
      in (story, options3))"

text \<open>
  What \<open>re\<close> answers on a text that holds no bracket and no digit: no match, and the
  text itself after a substitution.
\<close>

definition plain_text_engine :: regex_engine where
  "plain_text_engine =
     \<lparr>re_findall = (\<lambda>pattern string dotall. []),
      re_match = (\<lambda>pattern string. None),
      re_sub = (\<lambda>pattern repl string dotall. string)\<rparr>"

section \<open>player.py: the combat attributes of a Player\<close>

text \<open>
  The methods \<open>take_damage\<close>, \<open>heal\<close>, \<open>use_mp\<close> and \<open>restore_mp\<close> read and
  write only the four combat attributes of a \<open>Player\<close>; the record holds these.
  A method that mutates the player and returns a value is a function to the pair of the
  returned value and the new player.
\<close>

record player =
  max_hp :: int
  hp :: int
  max_mp :: int
  mp :: int

definition take_damage :: "player \<Rightarrow> int \<Rightarrow> bool \<times> player" where
  "take_damage p damage =
     (let p' = p\<lparr>hp := max 0 (hp p - damage)\<rparr> in (hp p' \<le> 0, p'))"

definition heal :: "player \<Rightarrow> int \<Rightarrow> int \<times> player" where
  "heal p amount =
     (let old_hp = hp p;
          p' = p\<lparr>hp := min (max_hp p) (hp p + amount)\<rparr>
      in (hp p' - old_hp, p'))"

definition use_mp :: "player \<Rightarrow> int \<Rightarrow> bool \<times> player" where
  "use_mp p amount =
     (if mp p \<ge> amount then (True, p\<lparr>mp := mp p - amount\<rparr>) else (False, p))"

definition restore_mp :: "player \<Rightarrow> int \<Rightarrow> int \<times> player" where
  "restore_mp p amount =
     (let old_mp = mp p;
          p' = p\<lparr>mp := min (max_mp p) (mp p + amount)\<rparr>
      in (mp p' - old_mp, p'))"

text \<open>The range invariant of the combat attributes.\<close>

definition player_in_range :: "player \<Rightarrow> bool" where
  "player_in_range p \<longleftrightarrow> 0 \<le> hp p \<and> hp p \<le> max_hp p \<and> 0 \<le> mp p \<and> mp p \<le> max_mp p"

definition wounded_player :: player where
  "wounded_player = \<lparr>max_hp = 100, hp = 10, max_mp = 50, mp = 20\<rparr>"

section \<open>Properties of the VoteManager\<close>

subsection \<open>Option keys and dicts\<close>

lemma str_of_nat_inverse: "foldl (\<lambda>a d. 10 * a + (d - 48)) 0 (str_of_nat n) = n"
proof (induction n rule: str_of_nat.induct)
  case (1 n)
  show ?case
  proof (cases "n < 10")
    case True
    then show ?thesis by (subst str_of_nat.simps) simp
  next
    case False
    with 1 show ?thesis by (subst str_of_nat.simps) simp
  qed
qed

lemma str_of_nat_inj: "str_of_nat m = str_of_nat n \<Longrightarrow> m = n"
  by (metis str_of_nat_inverse)

lemma option_key_inj: "inj option_key"
  by (auto simp: inj_on_def option_key_def dest: str_of_nat_inj)

lemma distinct_option_keys: "distinct (map option_key [0..<n])"
  by (simp add: distinct_map option_key_inj inj_on_subset[OF option_key_inj])

lemma dict_mem_append [simp]: "dict_mem k (d @ e) \<longleftrightarrow> dict_mem k d \<or> dict_mem k e"
  by (auto simp: dict_mem_def)

lemma foldl_dict_set_distinct:
  "distinct (map fst (d @ kvs)) \<Longrightarrow> foldl (\<lambda>d (k, v). dict_set d k v) d kvs = d @ kvs"
proof (induction kvs arbitrary: d)
  case Nil
  then show ?case by simp
next
  case (Cons kv kvs)
  obtain k v where kv: "kv = (k, v)" by (cases kv)
  from Cons.prems have "\<not> dict_mem k d" by (auto simp: dict_mem_def kv)
  then have "dict_set d k v = d @ [(k, v)]" by (simp add: dict_set_def)
  with Cons.IH[of "d @ [kv]"] Cons.prems show ?case by (simp add: kv)
qed

lemma dict_of_items_distinct: "distinct (map fst kvs) \<Longrightarrow> dict_of_items kvs = kvs"
  using foldl_dict_set_distinct[of "[]" kvs] by (simp add: dict_of_items_def)

lemma start_vote_votes:
  "votes (snd (start_vote s options cb now)) = map (\<lambda>i. (option_key i, [])) [0..<length options]"
  using distinct_option_keys[of "length options"]
  by (simp add: start_vote_def dict_of_items_distinct comp_def)

lemma foldl_patterns:
  "foldl (\<lambda>d i. dict_set d (option_key i) (f i)) d is
     = foldl (\<lambda>d (k, v). dict_set d k v) d (map (\<lambda>i. (option_key i, f i)) is)"
  by (induction "is" arbitrary: d) simp_all

lemma start_vote_patterns:
  "option_patterns (snd (start_vote s options cb now))
     = map (\<lambda>i. (option_key i, patterns_of (option_key i))) [0..<length options]"
  using distinct_option_keys[of "length options"]
    foldl_dict_set_distinct[of "[]" "map (\<lambda>i. (option_key i, patterns_of (option_key i))) [0..<length options]"]
  by (simp add: start_vote_def foldl_patterns comp_def)


lemma dict_mem_dict_del: "dict_mem u (dict_del b uid) \<longleftrightarrow> u \<noteq> uid \<and> dict_mem u b"
  by (induction b) (auto simp: dict_mem_def dict_del_def)

lemma dict_mem_dict_set: "dict_mem u (dict_set b uid v) \<longleftrightarrow> u = uid \<or> dict_mem u b"
  by (auto simp: dict_mem_def dict_set_def image_iff split: if_splits prod.splits) force+

lemma keys_remove_voter: "map fst (remove_voter uid vs) = map fst vs"
  by (induction vs) (auto simp: remove_voter_def case_prod_unfold)

lemma keys_cast_ballot: "map fst (cast_ballot key uid uname vs) = map fst vs"
  by (induction vs) (auto simp: cast_ballot_def case_prod_unfold)

lemma holding_remove_voter:
  "options_holding u (remove_voter uid vs) = (if u = uid then [] else options_holding u vs)"
  by (induction vs) (auto simp: options_holding_def remove_voter_def dict_mem_dict_del case_prod_unfold)

lemma holding_cast_other:
  "u \<noteq> uid \<Longrightarrow> options_holding u (cast_ballot key uid uname vs) = options_holding u vs"
  by (induction vs) (auto simp: options_holding_def cast_ballot_def dict_mem_dict_set case_prod_unfold)

lemma holding_cast_absent:
  "key \<notin> set (map fst vs) \<Longrightarrow> options_holding u (cast_ballot key uid uname vs) = options_holding u vs"
  by (induction vs) (auto simp: options_holding_def cast_ballot_def case_prod_unfold)

lemma holding_cast_self:
  "distinct (map fst vs) \<Longrightarrow> key \<in> set (map fst vs) \<Longrightarrow> options_holding uid vs = []
     \<Longrightarrow> options_holding uid (cast_ballot key uid uname vs) = [key]"
proof (induction vs)
  case Nil
  then show ?case by simp
next
  case (Cons kb vs)
  obtain k b where kb: "kb = (k, b)" by (cases kb)
  show ?case
  proof (cases "k = key")
    case True
    with Cons.prems have "key \<notin> set (map fst vs)" by (simp add: kb)
    then have "options_holding uid (cast_ballot key uid uname vs) = options_holding uid vs"
      by (rule holding_cast_absent)
    moreover from Cons.prems have "options_holding uid vs = []"
      by (simp add: options_holding_def kb split: if_splits)
    ultimately show ?thesis using True
      by (simp add: options_holding_def cast_ballot_def kb dict_mem_dict_set)
  next
    case False
    with Cons.prems have "options_holding uid vs = []" "\<not> dict_mem uid b"
      by (auto simp add: options_holding_def kb split: if_splits)
    with Cons False show ?thesis
      by (simp add: options_holding_def cast_ballot_def kb)
  qed
qed

lemma holding_iff:
  "distinct (map fst vs) \<Longrightarrow> dict_get vs key = Some b
     \<Longrightarrow> key \<in> set (options_holding uid vs) \<longleftrightarrow> dict_mem uid b"
  by (induction vs) (auto simp: options_holding_def dict_get_def image_iff split: if_splits)

subsection \<open>One step of \<open>process_danmaku\<close>\<close>

lemma try_patterns_char:
  assumes "dict_get vs key = Some b"
  shows "try_patterns vs msg cont key pats =
     (if list_ex (\<lambda>p. cont = p \<or> startswith cont p) pats \<and> \<not> dict_mem (user_id msg) b
      then Some (Inr (key, cast_ballot key (user_id msg) (username msg)
                            (remove_voter (user_id msg) vs)))
      else None)"
  using assms by (induction pats) auto

lemma dict_get_key: "k \<in> set (map fst vs) \<Longrightarrow> \<exists>b. dict_get vs k = Some b"
  by (induction vs) (auto simp: dict_get_def)

lemma try_options_char:
  assumes "distinct (map fst vs)" and "set ks \<subseteq> set (map fst vs)"
  shows "try_options vs msg cont (map (\<lambda>k. (k, patterns_of k)) ks) =
     (case vote_target vs (user_id msg) cont ks of
        None \<Rightarrow> None
      | Some key \<Rightarrow> Some (Inr (key, cast_ballot key (user_id msg) (username msg)
                                     (remove_voter (user_id msg) vs))))"
  using assms(2)
proof (induction ks)
  case Nil
  then show ?case by (simp add: vote_target_def)
next
  case (Cons k ks)
  then obtain b where b: "dict_get vs k = Some b"
    using dict_get_key[of k vs] by auto
  have h: "k \<in> set (options_holding (user_id msg) vs) \<longleftrightarrow> dict_mem (user_id msg) b"
    using holding_iff[OF assms(1) b] .
  from Cons show ?case
    by (simp add: try_patterns_char[OF b] vote_target_def matches_option_def h)
qed

lemma vote_target_in: "vote_target vs uid cont ks = Some key \<Longrightarrow> key \<in> set ks"
  unfolding vote_target_def by (induction ks) (auto split: if_splits)

lemma vm_inv_start: "vm_inv (length options) (snd (start_vote s options cb now))"
  unfolding vm_inv_def start_vote_votes start_vote_patterns
  by (simp add: comp_def options_holding_def dict_mem_def filter_empty_conv)

lemma process_danmaku_step:
  assumes "vm_inv n s"
  shows "\<exists>r s'. process_danmaku s m = Inr (r, s') \<and> vm_inv n s'
     \<and> r = (if voting_active s
            then vote_target (votes s) (user_id m) (strip (content m)) (map option_key [0..<n])
            else None)
     \<and> s' = (case r of
               None \<Rightarrow> s
             | Some key \<Rightarrow> s\<lparr>votes := cast_ballot key (user_id m) (username m)
                                        (remove_voter (user_id m) (votes s))\<rparr>)"
proof (cases "voting_active s")
  case False
  with assms show ?thesis by (simp add: process_danmaku_def)
next
  case True
  let ?ks = "map option_key [0..<n]"
  from assms have keys: "map fst (votes s) = ?ks"
    and pats: "option_patterns s = map (\<lambda>k. (k, patterns_of k)) ?ks"
    and one: "\<And>u. length (options_holding u (votes s)) \<le> 1"
    by (simp_all add: vm_inv_def comp_def)
  have d: "distinct (map fst (votes s))"
    using distinct_option_keys keys by simp
  have sub: "set ?ks \<subseteq> set (map fst (votes s))" using keys by simp
  note char = try_options_char[OF d sub, of m "strip (content m)"]
  show ?thesis
  proof (cases "vote_target (votes s) (user_id m) (strip (content m)) ?ks")
    case None
    with True assms char show ?thesis by (simp add: process_danmaku_def pats)
  next
    case (Some key)
    let ?vs' = "cast_ballot key (user_id m) (username m) (remove_voter (user_id m) (votes s))"
    have kin: "key \<in> set (map fst (remove_voter (user_id m) (votes s)))"
      using vote_target_in[OF Some] keys by (simp add: keys_remove_voter)
    have dr: "distinct (map fst (remove_voter (user_id m) (votes s)))"
      using d by (simp add: keys_remove_voter)
    have self: "options_holding (user_id m) ?vs' = [key]"
      by (rule holding_cast_self[OF dr kin]) (simp add: holding_remove_voter)
    have other: "\<And>u. u \<noteq> user_id m \<Longrightarrow> options_holding u ?vs' = options_holding u (votes s)"
      by (simp add: holding_cast_other holding_remove_voter)
    have "vm_inv n (s\<lparr>votes := ?vs'\<rparr>)"
      unfolding vm_inv_def
    proof (intro conjI allI)
      show "map fst (votes (s\<lparr>votes := ?vs'\<rparr>)) = map option_key [0..<n]"
        using keys by (simp add: keys_cast_ballot keys_remove_voter)
      show "option_patterns (s\<lparr>votes := ?vs'\<rparr>)
            = map (\<lambda>i. (option_key i, patterns_of (option_key i))) [0..<n]"
        using assms by (simp add: vm_inv_def)
      fix u show "length (options_holding u (votes (s\<lparr>votes := ?vs'\<rparr>))) \<le> 1"
        using self other[of u] one[of u] by (cases "u = user_id m") simp_all
    qed
    with True Some char show ?thesis by (simp add: process_danmaku_def pats)
  qed
qed

lemma process_all_inv:
  assumes "vm_inv n s"
  shows "\<exists>s'. process_all s ms = Inr s' \<and> vm_inv n s'
     \<and> voting_active s' = voting_active s \<and> vote_callback s' = vote_callback s
     \<and> callback_log s' = callback_log s \<and> timers s' = timers s"
  using assms
proof (induction ms arbitrary: s)
  case Nil
  then show ?case by simp
next
  case (Cons m ms)
  from process_danmaku_step[OF Cons.prems, of m] obtain r s1 where
    st: "process_danmaku s m = Inr (r, s1)" and inv1: "vm_inv n s1"
    and s1: "s1 = (case r of None \<Rightarrow> s
             | Some key \<Rightarrow> s\<lparr>votes := cast_ballot key (user_id m) (username m)
                                        (remove_voter (user_id m) (votes s))\<rparr>)"
    by blast
  have same: "voting_active s1 = voting_active s" "vote_callback s1 = vote_callback s"
    "callback_log s1 = callback_log s" "timers s1 = timers s"
    using s1 by (cases r; simp)+
  from Cons.IH[OF inv1] same st show ?case by simp
qed

lemma session_reached:
  "\<exists>s. process_all (snd (start_vote s0 options cb now)) msgs = Inr s
     \<and> vm_inv (length options) s \<and> voting_active s \<and> vote_callback s = cb"
  using process_all_inv[OF vm_inv_start, of s0 options cb now msgs]
  by (auto simp: start_vote_def)

lemma vote_target_None:
  "vote_target vs uid cont ks = None \<longleftrightarrow>
     list_all (\<lambda>key. matches_option cont key \<longrightarrow> key \<in> set (options_holding uid vs)) ks"
  by (auto simp: vote_target_def find_None_iff list_all_iff)

lemma vote_target_Some:
  "vote_target vs uid cont ks = Some key \<Longrightarrow>
     matches_option cont key \<and> key \<notin> set (options_holding uid vs)"
  by (auto simp: vote_target_def find_Some_iff)


subsection \<open>A concrete session\<close>

lemma option_key_0: "option_key 0 = [49]"
  by (simp add: option_key_def str_of_nat.simps)

lemma option_key_1: "option_key (Suc 0) = [50]"
  by (simp add: option_key_def str_of_nat.simps)

lemma upt2: "[0..<2] = [0, Suc 0]"
  by (simp add: upt_rec)

lemma open_session_eq:
  "open_session = \<lparr>vote_duration = 15, votes = [([49], []), ([50], [])],
     option_patterns = [([49], patterns_of [49]), ([50], patterns_of [50])],
     voting_active = True, vote_start_time = Some 0, vote_callback = Some 0,
     timers = [15], callback_log = []\<rparr>"
  by (simp add: open_session_def start_vote_def init_vote_manager_def dict_of_items_def
      dict_set_def dict_mem_def upt2 option_key_0 option_key_1)

lemma step1: "process_danmaku open_session (chat ''u7'' ''1'')
   = Inr (Some [49], open_session\<lparr>votes := [([49], [(ascii ''u7'', ascii ''u7'')]), ([50], [])]\<rparr>)"
  by (simp add: open_session_eq process_danmaku_def chat_def strip_def isspace_def ascii_def
      patterns_of_def startswith_def dict_get_def dict_mem_def cast_ballot_def remove_voter_def
      dict_set_def)

lemma step2: "process_danmaku (open_session\<lparr>votes := [([49], [(ascii ''u7'', ascii ''u7'')]), ([50], [])]\<rparr>)
     (chat ''u7'' ''2 '')
   = Inr (Some [50], open_session\<lparr>votes := [([49], []), ([50], [(ascii ''u7'', ascii ''u7'')])]\<rparr>)"
  by (simp add: open_session_eq process_danmaku_def chat_def strip_def isspace_def ascii_def
      patterns_of_def startswith_def dict_get_def dict_mem_def cast_ballot_def remove_voter_def
      dict_set_def dict_del_def)

text \<open>
  The invariant of the ballots: in a session opened by \<open>start_vote\<close>, after any
  sequence of \<open>process_danmaku\<close> calls (none of which raises), every voter is held by at
  most one option, before and after a further call. That call answers the first option,
  in option order, whose pattern the stripped text matches and which does not yet hold
  the voter's ballot: the voter is then taken out of every option and put into that one,
  and the ballots of the other voters stay where they are. Only when every option the
  text matches already holds the voter's ballot does the call answer \<open>None\<close> and
  change nothing.
\<close>

theorem one_ballot_per_voter:
  "\<exists>s. process_all (snd (start_vote s0 options cb now)) msgs = Inr s
     \<and> length (options_holding uid (votes s)) \<le> 1
     \<and> (\<exists>r s'. process_danmaku s m = Inr (r, s')
          \<and> length (options_holding uid (votes s')) \<le> 1
          \<and> r = vote_target (votes s) (user_id m) (strip (content m)) (dict_keys (votes s))
          \<and> (list_all (\<lambda>key. matches_option (strip (content m)) key
                               \<longrightarrow> key \<in> set (options_holding (user_id m) (votes s)))
                 (dict_keys (votes s)) \<longrightarrow> r = None)
          \<and> (case r of
                None \<Rightarrow> s' = s
              | Some key \<Rightarrow>
                  matches_option (strip (content m)) key
                  \<and> key \<notin> set (options_holding (user_id m) (votes s))
                  \<and> options_holding (user_id m) (votes s') = [key]
                  \<and> votes s' = cast_ballot key (user_id m) (username m)
                                  (remove_voter (user_id m) (votes s))
                  \<and> (uid \<noteq> user_id m
                       \<longrightarrow> options_holding uid (votes s') = options_holding uid (votes s))))"
proof -
  let ?n = "length options"
  from session_reached[of s0 options cb now msgs] obtain s where
    run: "process_all (snd (start_vote s0 options cb now)) msgs = Inr s"
    and inv: "vm_inv ?n s" and act: "voting_active s"
    by blast
  from inv have keys: "dict_keys (votes s) = map option_key [0..<?n]"
    by (simp add: vm_inv_def dict_keys_def)
  from process_danmaku_step[OF inv, of m] obtain r s' where
    st: "process_danmaku s m = Inr (r, s')" and inv': "vm_inv ?n s'"
    and r: "r = vote_target (votes s) (user_id m) (strip (content m)) (dict_keys (votes s))"
    and s': "s' = (case r of None \<Rightarrow> s
             | Some key \<Rightarrow> s\<lparr>votes := cast_ballot key (user_id m) (username m)
                                        (remove_voter (user_id m) (votes s))\<rparr>)"
    using act keys by auto
  have d: "distinct (map fst (remove_voter (user_id m) (votes s)))"
    using inv distinct_option_keys[of ?n] by (simp add: vm_inv_def keys_remove_voter)
  have tail: "case r of
                None \<Rightarrow> s' = s
              | Some key \<Rightarrow>
                  matches_option (strip (content m)) key
                  \<and> key \<notin> set (options_holding (user_id m) (votes s))
                  \<and> options_holding (user_id m) (votes s') = [key]
                  \<and> votes s' = cast_ballot key (user_id m) (username m)
                                  (remove_voter (user_id m) (votes s))
                  \<and> (uid \<noteq> user_id m
                       \<longrightarrow> options_holding uid (votes s') = options_holding uid (votes s))"
  proof (cases r)
    case None
    with s' show ?thesis by simp
  next
    case (Some key)
    with r have vt: "vote_target (votes s) (user_id m) (strip (content m)) (dict_keys (votes s)) = Some key"
      by simp
    have kin: "key \<in> set (map fst (remove_voter (user_id m) (votes s)))"
      using vote_target_in[OF vt] by (simp add: keys_remove_voter dict_keys_def)
    have "options_holding (user_id m) (votes s') = [key]"
      using holding_cast_self[OF d kin, of "user_id m" "username m"] s' Some
      by (simp add: holding_remove_voter)
    with Some s' vote_target_Some[OF vt] show ?thesis
      by (simp add: holding_cast_other holding_remove_voter)
  qed
  have "list_all (\<lambda>key. matches_option (strip (content m)) key
                               \<longrightarrow> key \<in> set (options_holding (user_id m) (votes s)))
                 (dict_keys (votes s)) \<longrightarrow> r = None"
    using r by (simp add: vote_target_None)
  with run st r tail inv inv' show ?thesis
    by (auto simp: vm_inv_def)
qed

theorem one_ballot_per_voter_witness:
  "process_all (snd (start_vote (init_vote_manager 15) [ascii ''explore'', ascii ''rest'']
                       (Some (0::nat)) 0)) [chat ''u7'' ''1''] = Inr voted_once
   \<and> options_holding (ascii ''u7'') (votes voted_once) = [[49]]
   \<and> (\<exists>s'. process_danmaku voted_once (chat ''u7'' ''2 '') = Inr (Some [50], s')
         \<and> options_holding (ascii ''u7'') (votes s') = [[50]]
         \<and> options_holding (ascii ''u8'') (votes s') = options_holding (ascii ''u8'') (votes voted_once))"
proof -
  have run: "process_all (snd (start_vote (init_vote_manager 15) [ascii ''explore'', ascii ''rest'']
                       (Some (0::nat)) 0)) [chat ''u7'' ''1''] = Inr voted_once"
    using step1 by (simp add: voted_once_def open_session_def [symmetric])
  have st: "process_danmaku voted_once (chat ''u7'' ''2 '')
     = Inr (Some [50], open_session\<lparr>votes := [([49], []), ([50], [(ascii ''u7'', ascii ''u7'')])]\<rparr>)"
    using step2 by (simp add: voted_once_def)
  have ne: "ascii ''u8'' \<noteq> user_id (chat ''u7'' ''2 '')"
    by (simp add: chat_def ascii_def)
  have h: "options_holding (ascii ''u7'') (votes voted_once) = [[49]]"
    by (simp add: voted_once_def options_holding_def dict_mem_def)
  from one_ballot_per_voter [of "init_vote_manager 15" "[ascii ''explore'', ascii ''rest'']"
      "Some (0::nat)" 0 "[chat ''u7'' ''1'']" "ascii ''u8''" "chat ''u7'' ''2 ''"]
  obtain s r s' where
    a: "process_all (snd (start_vote (init_vote_manager 15) [ascii ''explore'', ascii ''rest'']
                       (Some (0::nat)) 0)) [chat ''u7'' ''1''] = Inr s"
    and b: "process_danmaku s (chat ''u7'' ''2 '') = Inr (r, s')"
    and c: "case r of
                None \<Rightarrow> s' = s
              | Some key \<Rightarrow>
                  matches_option (strip (content (chat ''u7'' ''2 ''))) key
                  \<and> key \<notin> set (options_holding (user_id (chat ''u7'' ''2 '')) (votes s))
                  \<and> options_holding (user_id (chat ''u7'' ''2 '')) (votes s') = [key]
                  \<and> votes s' = cast_ballot key (user_id (chat ''u7'' ''2 ''))
                                  (username (chat ''u7'' ''2 ''))
                                  (remove_voter (user_id (chat ''u7'' ''2 '')) (votes s))
                  \<and> (ascii ''u8'' \<noteq> user_id (chat ''u7'' ''2 '')
                       \<longrightarrow> options_holding (ascii ''u8'') (votes s')
                           = options_holding (ascii ''u8'') (votes s))"
    by blast
  from a run have s: "s = voted_once" by simp
  from b st s have r: "r = Some [50]" by simp
  have "options_holding (user_id (chat ''u7'' ''2 '')) (votes s') = [[50]]"
    and "options_holding (ascii ''u8'') (votes s') = options_holding (ascii ''u8'') (votes s)"
    using c ne unfolding r option.case by blast+
  then have "options_holding (ascii ''u7'') (votes s') = [[50]]"
    and "options_holding (ascii ''u8'') (votes s') = options_holding (ascii ''u8'') (votes voted_once)"
    unfolding s by (simp_all add: chat_def)
  with run h b r s show ?thesis by auto
qed

subsection \<open>A repeated vote among ten options\<close>

lemma upt10: "[0..<10] = [0, 1, 2, 3, 4, 5, 6, 7, 8, 9]"
  by (simp add: upt_rec)

lemma option_keys10:
  "map option_key [0, 1, 2, 3, 4, 5, 6, 7, 8, 9]
     = [[49], [50], [51], [52], [53], [54], [55], [56], [57], [49, 48]]"
  by (simp add: option_key_def str_of_nat.simps)

lemma crowded_session_eq:
  "crowded_session = \<lparr>vote_duration = 15,
     votes = map (\<lambda>k. (k, [])) [[49], [50], [51], [52], [53], [54], [55], [56], [57], [49, 48]],
     option_patterns = map (\<lambda>k. (k, patterns_of k))
        [[49], [50], [51], [52], [53], [54], [55], [56], [57], [49, 48]],
     voting_active = True, vote_start_time = Some 0, vote_callback = Some 0,
     timers = [15], callback_log = []\<rparr>"
proof -
  have v: "votes crowded_session = map (\<lambda>k. (k, [])) (map option_key [0..<10])"
    unfolding crowded_session_def start_vote_votes by (simp add: comp_def)
  have p: "option_patterns crowded_session
      = map (\<lambda>k. (k, patterns_of k)) (map option_key [0..<10])"
    unfolding crowded_session_def start_vote_patterns by (simp add: comp_def)
  have "crowded_session = \<lparr>vote_duration = 15, votes = votes crowded_session,
     option_patterns = option_patterns crowded_session,
     voting_active = True, vote_start_time = Some 0, vote_callback = Some 0,
     timers = [15], callback_log = []\<rparr>"
    by (simp add: crowded_session_def start_vote_def init_vote_manager_def)
  then show ?thesis
    unfolding v p upt10 option_keys10 .
qed

lemma crowded_votes_1:
  "crowded_votes [49] = [([49], [(ascii ''u7'', ascii ''u7'')]), ([50], []), ([51], []),
     ([52], []), ([53], []), ([54], []), ([55], []), ([56], []), ([57], []), ([49, 48], [])]"
  using option_keys10 by (simp add: crowded_votes_def upt10)

lemma crowded_votes_10:
  "crowded_votes [49, 48] = [([49], []), ([50], []), ([51], []),
     ([52], []), ([53], []), ([54], []), ([55], []), ([56], []), ([57], []),
     ([49, 48], [(ascii ''u7'', ascii ''u7'')])]"
  using option_keys10 by (simp add: crowded_votes_def upt10)

text \<open>
  C2 on the code: the voter stays in at most one option, but a repeat vote for the same
  option does not always leave the ballots unchanged. With ten options the text
  \<open>"10"\<close> matches the patterns of option 1 (as a prefix) and of option 10. When the
  option tried first already holds the voter, the loops of \<open>process_danmaku\<close> go on
  to the next option instead of returning: the first \<open>"10"\<close> of a voter is recorded
  for option 1, the second moves the ballot to option 10, and the third, sent while
  option 10 holds the ballot, moves it back to option 1.
\<close>

theorem repeated_vote_moves_ballot:
  "process_danmaku crowded_session (chat ''u7'' ''10'')
     = Inr (Some (ascii ''1''), crowded_session\<lparr>votes := crowded_votes (ascii ''1'')\<rparr>)
   \<and> process_danmaku (crowded_session\<lparr>votes := crowded_votes (ascii ''1'')\<rparr>) (chat ''u7'' ''10'')
     = Inr (Some (ascii ''10''), crowded_session\<lparr>votes := crowded_votes (ascii ''10'')\<rparr>)
   \<and> process_danmaku (crowded_session\<lparr>votes := crowded_votes (ascii ''10'')\<rparr>) (chat ''u7'' ''10'')
     = Inr (Some (ascii ''1''), crowded_session\<lparr>votes := crowded_votes (ascii ''1'')\<rparr>)
   \<and> options_holding (ascii ''u7'') (crowded_votes (ascii ''1'')) = [ascii ''1'']
   \<and> options_holding (ascii ''u7'') (crowded_votes (ascii ''10'')) = [ascii ''10'']"
proof -
  have a: "ascii ''1'' = [49]" "ascii ''10'' = [49, 48]" by (simp_all add: ascii_def)
  note ev = process_danmaku_def chat_def strip_def isspace_def ascii_def
      patterns_of_def startswith_def dict_get_def dict_mem_def cast_ballot_def remove_voter_def
      dict_set_def dict_del_def
  have 1: "process_danmaku crowded_session (chat ''u7'' ''10'')
     = Inr (Some [49], crowded_session\<lparr>votes := crowded_votes [49]\<rparr>)"
    unfolding crowded_votes_1 by (simp add: crowded_session_eq ev)
  have 2: "process_danmaku (crowded_session\<lparr>votes := crowded_votes [49]\<rparr>) (chat ''u7'' ''10'')
     = Inr (Some [49, 48], crowded_session\<lparr>votes := crowded_votes [49, 48]\<rparr>)"
    unfolding crowded_votes_1 crowded_votes_10 by (simp add: crowded_session_eq ev)
  have 3: "process_danmaku (crowded_session\<lparr>votes := crowded_votes [49, 48]\<rparr>) (chat ''u7'' ''10'')
     = Inr (Some [49], crowded_session\<lparr>votes := crowded_votes [49]\<rparr>)"
    unfolding crowded_votes_1 crowded_votes_10 by (simp add: crowded_session_eq ev)
  have 4: "options_holding (ascii ''u7'') (crowded_votes [49]) = [[49]]"
    "options_holding (ascii ''u7'') (crowded_votes [49, 48]) = [[49, 48]]"
    unfolding crowded_votes_1 crowded_votes_10
    by (simp_all add: options_holding_def dict_mem_def)
  from 1 2 3 4 show ?thesis unfolding a by simp
qed

subsection \<open>The winner\<close>

lemma max_scan_first:
  assumes "i0 < length pre" and "b = pre ! i0"
    and "\<forall>j<length pre. f (pre ! j) \<le> f b" and "\<forall>j<i0. f (pre ! j) < f b"
  shows "\<exists>i<length (pre @ xs). max_scan f b xs = (pre @ xs) ! i
     \<and> (\<forall>j<length (pre @ xs). f ((pre @ xs) ! j) \<le> f ((pre @ xs) ! i))
     \<and> (\<forall>j<i. f ((pre @ xs) ! j) < f ((pre @ xs) ! i))"
  using assms
proof (induction xs arbitrary: pre b i0)
  case Nil
  then show ?case by auto
next
  case (Cons x xs)
  show ?case
  proof (cases "f x > f b")
    case True
    have "\<exists>i<length ((pre @ [x]) @ xs). max_scan f x xs = ((pre @ [x]) @ xs) ! i
     \<and> (\<forall>j<length ((pre @ [x]) @ xs). f (((pre @ [x]) @ xs) ! j) \<le> f (((pre @ [x]) @ xs) ! i))
     \<and> (\<forall>j<i. f (((pre @ [x]) @ xs) ! j) < f (((pre @ [x]) @ xs) ! i))"
    proof (rule Cons.IH[of "length pre" "pre @ [x]" x])
      show "length pre < length (pre @ [x])" by simp
      show "x = (pre @ [x]) ! length pre" by simp
      show "\<forall>j<length (pre @ [x]). f ((pre @ [x]) ! j) \<le> f x"
        using Cons.prems(3) True by (fastforce simp: nth_append less_Suc_eq)
      show "\<forall>j<length pre. f ((pre @ [x]) ! j) < f x"
        using Cons.prems(3) True by (fastforce simp: nth_append)
    qed
    with True show ?thesis by simp
  next
    case False
    have "\<exists>i<length ((pre @ [x]) @ xs). max_scan f b xs = ((pre @ [x]) @ xs) ! i
     \<and> (\<forall>j<length ((pre @ [x]) @ xs). f (((pre @ [x]) @ xs) ! j) \<le> f (((pre @ [x]) @ xs) ! i))
     \<and> (\<forall>j<i. f (((pre @ [x]) @ xs) ! j) < f (((pre @ [x]) @ xs) ! i))"
    proof (rule Cons.IH[of i0 "pre @ [x]" b])
      show "i0 < length (pre @ [x])" using Cons.prems(1) by simp
      show "b = (pre @ [x]) ! i0" using Cons.prems(1,2) by (simp add: nth_append)
      show "\<forall>j<length (pre @ [x]). f ((pre @ [x]) ! j) \<le> f b"
        using Cons.prems(3) False by (auto simp: nth_append less_Suc_eq)
      show "\<forall>j<i0. f ((pre @ [x]) ! j) < f b"
        using Cons.prems(1,4) by (auto simp: nth_append)
    qed
    with False show ?thesis by simp
  qed
qed

lemma max_scan_head:
  "\<exists>i<length (k # ks). max_scan f k ks = (k # ks) ! i
     \<and> (\<forall>j<length (k # ks). f ((k # ks) ! j) \<le> f ((k # ks) ! i))
     \<and> (\<forall>j<i. f ((k # ks) ! j) < f ((k # ks) ! i))"
  using max_scan_first[of 0 "[k]" k f ks] by simp


lemma map_of_nth:
  "distinct (map fst xs) \<Longrightarrow> j < length xs \<Longrightarrow> map_of xs (fst (xs ! j)) = Some (snd (xs ! j))"
  by (metis map_of_eq_Some_iff nth_mem prod.collapse)

lemma counts_of_session:
  assumes "vm_inv n s"
  shows "get_vote_counts s = map (\<lambda>(k, b). (k, length b)) (votes s)"
    and "dict_keys (get_vote_counts s) = map option_key [0..<n]"
    and "j < n \<Longrightarrow> count_at (get_vote_counts s) (option_key j) = tally s j"
proof -
  from assms have keys: "map fst (votes s) = map option_key [0..<n]"
    by (simp add: vm_inv_def)
  have d: "distinct (map fst (map (\<lambda>(k, b). (k, length b)) (votes s)))"
    using distinct_option_keys[of n] keys by (simp add: comp_def case_prod_unfold)
  show c: "get_vote_counts s = map (\<lambda>(k, b). (k, length b)) (votes s)"
    unfolding get_vote_counts_def by (rule dict_of_items_distinct[OF d])
  show "dict_keys (get_vote_counts s) = map option_key [0..<n]"
    using keys by (simp add: c dict_keys_def comp_def case_prod_unfold)
  assume j: "j < n"
  from keys have len: "length (votes s) = n"
    by (metis length_map length_upt minus_nat.diff_0)
  from keys j len have kj: "fst (votes s ! j) = option_key j"
    by (metis add.left_neutral length_map nth_map nth_upt)
  have "map_of (map (\<lambda>(k, b). (k, length b)) (votes s))
          (fst (map (\<lambda>(k, b). (k, length b)) (votes s) ! j))
        = Some (snd (map (\<lambda>(k, b). (k, length b)) (votes s) ! j))"
    using d j len by (intro map_of_nth) simp_all
  then show "count_at (get_vote_counts s) (option_key j) = tally s j"
    using j len kj by (simp add: c count_at_def dict_get_def tally_def case_prod_unfold)
qed

lemma winner_of_session:
  assumes "vm_inv n s"
  shows "(n = 0 \<longrightarrow> pick_winner (get_vote_counts s) = ascii ''1'')
     \<and> (0 < n \<longrightarrow> (\<exists>i<n. pick_winner (get_vote_counts s) = option_key i
            \<and> (\<forall>j<n. tally s j \<le> tally s i) \<and> (\<forall>j<i. tally s j < tally s i)))"
proof (cases n)
  case 0
  with counts_of_session(2)[OF assms] show ?thesis by (simp add: pick_winner_def)
next
  case (Suc m)
  let ?c = "get_vote_counts s"
  let ?ks = "map option_key [0..<n]"
  from Suc obtain k ks where ks: "?ks = k # ks"
    by (cases ?ks) simp_all
  then have pw: "pick_winner ?c = max_scan (count_at ?c) k ks"
    using counts_of_session(2)[OF assms] by (simp add: pick_winner_def)
  from max_scan_head[of k ks "count_at ?c"] obtain i where
    i: "i < length (k # ks)" and w: "max_scan (count_at ?c) k ks = (k # ks) ! i"
    and mx: "\<forall>j<length (k # ks). count_at ?c ((k # ks) ! j) \<le> count_at ?c ((k # ks) ! i)"
    and fs: "\<forall>j<i. count_at ?c ((k # ks) ! j) < count_at ?c ((k # ks) ! i)"
    by blast
  have len: "length (k # ks) = n" using ks[symmetric] by simp
  have nth: "\<And>j. j < n \<Longrightarrow> (k # ks) ! j = option_key j"
    using ks[symmetric] by simp
  have cnt: "\<And>j. j < n \<Longrightarrow> count_at ?c ((k # ks) ! j) = tally s j"
    using counts_of_session(3)[OF assms] nth by simp
  from i len have i': "i < n" by simp
  have "\<forall>j<n. tally s j \<le> tally s i"
    by (metis mx cnt i' len)
  moreover have "\<forall>j<i. tally s j < tally s i"
    by (metis fs cnt i' less_trans)
  ultimately show ?thesis using pw w nth i' Suc by auto
qed

lemma end_vote_result: "fst (end_vote s) = (pick_winner (get_vote_counts s), get_vote_counts s)"
  by (simp add: end_vote_def Let_def get_vote_counts_def)


text \<open>
  C3: in a session opened by \<open>start_vote\<close>, after any sequence of \<open>process_danmaku\<close>
  calls, \<open>end_vote\<close> returns the tally (each option key with the number of its
  ballots) and as winner the option at the least position whose number of ballots is not
  exceeded by any other: the highest count wins and, among equal counts, the lowest
  ordinal. Without options, and whenever no ballot was cast, the winner is the key
  \<open>"1"\<close>; nothing is raised.
\<close>

theorem winner_is_first_maximum:
  "\<exists>s. process_all (snd (start_vote s0 options cb now)) msgs = Inr s
     \<and> dict_keys (votes s) = map option_key [0..<length options]
     \<and> snd (fst (end_vote s)) = map (\<lambda>(k, b). (k, length b)) (votes s)
     \<and> (options = [] \<longrightarrow> fst (fst (end_vote s)) = ascii ''1'')
     \<and> (options \<noteq> [] \<longrightarrow>
          (\<exists>i<length options. fst (fst (end_vote s)) = option_key i
             \<and> (\<forall>j<length options. tally s j \<le> tally s i)
             \<and> (\<forall>j<i. tally s j < tally s i)))
     \<and> ((\<forall>j<length options. tally s j = 0) \<longrightarrow> fst (fst (end_vote s)) = ascii ''1'')"
proof -
  let ?n = "length options"
  from session_reached[of s0 options cb now msgs] obtain s where
    run: "process_all (snd (start_vote s0 options cb now)) msgs = Inr s"
    and inv: "vm_inv ?n s"
    by blast
  note w = winner_of_session[OF inv]
  have zero: "(\<forall>j<?n. tally s j = 0) \<longrightarrow> pick_winner (get_vote_counts s) = ascii ''1''"
  proof
    assume z: "\<forall>j<?n. tally s j = 0"
    show "pick_winner (get_vote_counts s) = ascii ''1''"
    proof (cases "?n = 0")
      case True
      with w show ?thesis by simp
    next
      case False
      with w obtain i where i: "i < ?n" and p: "pick_winner (get_vote_counts s) = option_key i"
        and fs: "\<forall>j<i. tally s j < tally s i" by auto
      from z i have "tally s i = 0" by simp
      with fs have "i = 0" by (cases i) auto
      with p show ?thesis by (simp add: option_key_0 ascii_def)
    qed
  qed
  from inv have "dict_keys (votes s) = map option_key [0..<?n]"
    by (simp add: vm_inv_def dict_keys_def)
  with run w zero counts_of_session(1)[OF inv] show ?thesis
    by (auto simp: end_vote_result)
qed

lemma run_two_votes:
  "process_all (snd (start_vote (init_vote_manager 15) [ascii ''explore'', ascii ''rest'']
                       (Some (0::nat)) 0)) [chat ''u7'' ''1'', chat ''u7'' ''2 ''] = Inr voted_twice"
  using step1 step2 by (simp add: voted_twice_def open_session_def [symmetric])

theorem winner_is_first_maximum_witness:
  "process_all (snd (start_vote (init_vote_manager 15) [ascii ''explore'', ascii ''rest'']
                       (Some (0::nat)) 0)) [chat ''u7'' ''1'', chat ''u7'' ''2 ''] = Inr voted_twice
   \<and> [ascii ''explore'', ascii ''rest''] \<noteq> []
   \<and> tally voted_twice 0 = 0 \<and> tally voted_twice 1 = 1
   \<and> fst (fst (end_vote voted_twice)) = ascii ''2''"
proof -
  have t0: "tally voted_twice 0 = 0" and t1: "tally voted_twice 1 = 1"
    by (simp_all add: tally_def voted_twice_def)
  have ne: "[ascii ''explore'', ascii ''rest''] \<noteq> []" by simp
  from winner_is_first_maximum [of "init_vote_manager 15" "[ascii ''explore'', ascii ''rest'']"
      "Some (0::nat)" 0 "[chat ''u7'' ''1'', chat ''u7'' ''2 '']"]
  obtain s where
    a: "process_all (snd (start_vote (init_vote_manager 15) [ascii ''explore'', ascii ''rest'']
                       (Some (0::nat)) 0)) [chat ''u7'' ''1'', chat ''u7'' ''2 ''] = Inr s"
    and imp: "[ascii ''explore'', ascii ''rest''] \<noteq> [] \<longrightarrow>
          (\<exists>i<length [ascii ''explore'', ascii ''rest'']. fst (fst (end_vote s)) = option_key i
             \<and> (\<forall>j<length [ascii ''explore'', ascii ''rest'']. tally s j \<le> tally s i)
             \<and> (\<forall>j<i. tally s j < tally s i))"
    by blast
  from imp ne obtain i where
    i: "i < length [ascii ''explore'', ascii ''rest'']"
    and w: "fst (fst (end_vote s)) = option_key i"
    and mx: "\<forall>j<length [ascii ''explore'', ascii ''rest'']. tally s j \<le> tally s i"
    by blast
  from a run_two_votes have s: "s = voted_twice" by simp
  from mx have "tally s 1 \<le> tally s i" by simp
  with t0 t1 have "i \<noteq> 0" unfolding s by (cases "i = 0") simp_all
  with i have "i = Suc 0" by simp
  with w s have "fst (fst (end_vote voted_twice)) = ascii ''2''"
    by (simp add: option_key_1 ascii_def)
  with run_two_votes t0 t1 ne show ?thesis by simp
qed

subsection \<open>Closing a session\<close>

text \<open>
  C1, as stated, fails: \<open>end_vote\<close> does not look at \<open>voting_active\<close>, so a second
  call on the same session calls the callback a second time.
\<close>

theorem end_vote_twice_fires_twice:
  "voting_active open_session \<and> vote_callback open_session = Some 0
   \<and> callback_log open_session = []
   \<and> callback_log (snd (end_vote open_session)) = [(0, [49], [([49], 0), ([50], 0)])]
   \<and> callback_log (snd (end_vote (snd (end_vote open_session))))
       = [(0, [49], [([49], 0), ([50], 0)]), (0, [49], [([49], 0), ([50], 0)])]"
  by (simp add: open_session_eq end_vote_def Let_def get_vote_counts_def dict_of_items_def
      dict_set_def dict_mem_def pick_winner_def dict_keys_def count_at_def dict_get_def)

lemma vote_timer_closed: "\<not> voting_active s \<Longrightarrow> (vote_timer ^^ N) s = s"
  by (induction N) (simp_all add: vote_timer_def)

lemma end_vote_closes: "\<not> voting_active (snd (end_vote s))"
  by (simp add: end_vote_def Let_def split: option.split)

text \<open>
  C1, amended: on an open session with a callback, the first call of \<open>end_vote\<close>,
  made by the timer or by an explicit close, closes the session and calls the callback
  once, with the winner and the tally it returns. The timer calls \<open>end_vote\<close> only
  while the session is open: any number \<open>N \<ge> 1\<close> of timer expiries leaves the state of
  that single \<open>end_vote\<close>, so the callback is called exactly once; after the first call
  any number \<open>M\<close> of timer expiries changes nothing, and chat messages are ignored.
\<close>

theorem timer_resolves_once:
  assumes "voting_active s" and "vote_callback s = Some cb" and "0 < N"
  shows "\<not> voting_active (snd (end_vote s))
     \<and> fst (end_vote s) = (pick_winner (get_vote_counts s), get_vote_counts s)
     \<and> callback_log (snd (end_vote s)) = callback_log s @ [(cb, fst (end_vote s))]
     \<and> (vote_timer ^^ N) s = snd (end_vote s)
     \<and> (vote_timer ^^ M) (snd (end_vote s)) = snd (end_vote s)
     \<and> process_danmaku (snd (end_vote s)) m = Inr (None, snd (end_vote s))"
proof -
  from assms(3) obtain K where N: "N = Suc K" by (cases N) simp_all
  have "(vote_timer ^^ N) s = (vote_timer ^^ K) (vote_timer s)"
    unfolding N by (simp add: funpow_swap1)
  also have "\<dots> = (vote_timer ^^ K) (snd (end_vote s))"
    using assms(1) by (simp add: vote_timer_def)
  also have "\<dots> = snd (end_vote s)"
    by (rule vote_timer_closed[OF end_vote_closes])
  finally have n: "(vote_timer ^^ N) s = snd (end_vote s)" .
  have "callback_log (snd (end_vote s)) = callback_log s @ [(cb, fst (end_vote s))]"
    using assms(2) by (simp add: end_vote_def Let_def)
  with n end_vote_closes[of s] vote_timer_closed[OF end_vote_closes, of M s] show ?thesis
    by (simp add: end_vote_result process_danmaku_def)
qed

theorem timer_resolves_once_witness:
  "voting_active open_session \<and> vote_callback open_session = Some 0 \<and> (0::nat) < 3
   \<and> callback_log ((vote_timer ^^ 3) open_session) = [(0, [49], [([49], 0), ([50], 0)])]"
proof -
  have a: "voting_active open_session" and b: "vote_callback open_session = Some 0"
    and l: "callback_log open_session = []"
    by (simp_all add: open_session_eq)
  have c: "(0::nat) < 3" by simp
  have r: "fst (end_vote open_session) = ([49], [([49], 0), ([50], 0)])"
    by (simp add: open_session_eq end_vote_def Let_def get_vote_counts_def dict_of_items_def
      dict_set_def dict_mem_def pick_winner_def dict_keys_def count_at_def dict_get_def)
  from timer_resolves_once [OF a b c] a b c l r show ?thesis by simp
qed

subsection \<open>Opening a session\<close>

text \<open>
  C5, as stated, fails: \<open>start_vote\<close> has no check of \<open>voting_active\<close>. Called on an
  open session that holds a ballot, it replaces the ballots, the patterns, the start
  time and the callback.
\<close>

theorem start_vote_replaces_open_session:
  "voting_active voted_once
   \<and> votes voted_once = [([49], [(ascii ''u7'', ascii ''u7'')]), ([50], [])]
   \<and> votes (snd (start_vote voted_once [ascii ''flee''] (Some 1) 5)) = [([49], [])]
   \<and> option_patterns (snd (start_vote voted_once [ascii ''flee''] (Some 1) 5))
       \<noteq> option_patterns voted_once
   \<and> vote_start_time voted_once = Some 0
   \<and> vote_start_time (snd (start_vote voted_once [ascii ''flee''] (Some 1) 5)) = Some 5
   \<and> vote_callback voted_once = Some 0
   \<and> vote_callback (snd (start_vote voted_once [ascii ''flee''] (Some 1) 5)) = Some 1"
  by (simp add: voted_once_def open_session_eq start_vote_def dict_of_items_def dict_set_def
      dict_mem_def option_key_0)

text \<open>
  C5, amended: \<open>start_vote\<close> is unconditional. In every state, open or not, it returns
  the configured vote duration and leaves a session that is open, with one empty ballot
  dict and one pattern list per option, the new start time, the new callback and one
  more timer started; the timers started earlier keep running.
\<close>

theorem start_vote_unconditional:
  "fst (start_vote s options callback now) = vote_duration s
   \<and> votes (snd (start_vote s options callback now))
       = map (\<lambda>i. (option_key i, [])) [0..<length options]
   \<and> option_patterns (snd (start_vote s options callback now))
       = map (\<lambda>i. (option_key i, patterns_of (option_key i))) [0..<length options]
   \<and> voting_active (snd (start_vote s options callback now))
   \<and> vote_start_time (snd (start_vote s options callback now)) = Some now
   \<and> vote_callback (snd (start_vote s options callback now)) = callback
   \<and> timers (snd (start_vote s options callback now))
       = timers s @ [now + real_of_int (vote_duration s)]
   \<and> vote_duration (snd (start_vote s options callback now)) = vote_duration s
   \<and> callback_log (snd (start_vote s options callback now)) = callback_log s"
  using start_vote_votes[of s options callback now] start_vote_patterns[of s options callback now]
  by (simp add: start_vote_def)

section \<open>Properties of the GiftProcessor\<close>

subsection \<open>The tier of a gift\<close>

lemma set_sorted_reverse: "set (sorted_reverse f xs) = set xs"
  by (simp add: sorted_reverse_def)

lemma sorted_reverse_descending:
  "i \<le> j \<Longrightarrow> j < length xs \<Longrightarrow> f (sorted_reverse f xs ! j) \<le> f (sorted_reverse f xs ! i)"
proof -
  assume ij: "i \<le> j" "j < length xs"
  have "sorted (map (\<lambda>x. - f x) (sorted_reverse f xs))"
    unfolding sorted_reverse_def by (rule sorted_sort_key)
  from sorted_nth_mono[OF this, of i j] ij show ?thesis
    by (simp add: sorted_reverse_def)
qed

lemma sorted_reverse_stable:
  "filter (\<lambda>y. f y = k) (sorted_reverse f xs) = filter (\<lambda>y. f y = k) xs"
  using sort_key_stable[of "\<lambda>x. - f x" "- k" xs] by (simp add: sorted_reverse_def)















subsection \<open>The ranks of the donors\<close>

lemma position_of_simps [simp]:
  "position_of k [] = 0"
  "position_of k (k' # ks) = (if k' = k then 0 else Suc (position_of k ks))"
  by (simp_all add: position_of_def)

lemma three_gifts_eq:
  "three_gifts =
     [(ascii ''mock_A'', \<lparr>user_id_ds = ascii ''A'', username_ds = ascii ''A'',
         platform_ds = ascii ''mock'', total_value = 5, total_gifts = 2,
         last_gift_time = ascii ''2024-05-01T20:00:03'', contribution_rank = 1\<rparr>),
      (ascii ''mock_B'', \<lparr>user_id_ds = ascii ''B'', username_ds = ascii ''B'',
         platform_ds = ascii ''mock'', total_value = 5, total_gifts = 1,
         last_gift_time = ascii ''2024-05-01T20:00:02'', contribution_rank = 2\<rparr>)]"
  by (simp add: three_gifts_def gift_A1_def gift_B_def gift_A2_def gift_of_def
      update_donor_stats_def update_rankings_def sorted_reverse_def donor_key_def small_ops_def
      dict_set_def dict_mem_def dict_keys_def ascii_def Let_def)

lemma insort_key_map:
  "insort_key f (g x) (map g ys) = map g (insort_key (\<lambda>a. f (g a)) x ys)"
  by (induction ys) simp_all

lemma sort_key_map: "sort_key f (map g xs) = map g (sort_key (\<lambda>a. f (g a)) xs)"
  by (induction xs) (simp_all add: insort_key_map)

lemma position_of_nth: "distinct ks \<Longrightarrow> i < length ks \<Longrightarrow> position_of (ks ! i) ks = i"
proof (induction ks arbitrary: i)
  case Nil
  then show ?case by simp
next
  case (Cons k ks)
  then show ?case by (cases i) auto
qed

lemma positions_of_distinct: "distinct ks \<Longrightarrow> map (\<lambda>k. position_of k ks) ks = [0..<length ks]"
  by (rule nth_equalityI) (simp_all add: position_of_nth)

lemma keys_sorted_reverse:
  "distinct (map fst ds) \<Longrightarrow> distinct (map fst (sorted_reverse f ds))"
  by (simp add: distinct_map sorted_reverse_def)

lemma keys_update_rankings: "map fst (update_rankings ds) = map fst ds"
  by (simp add: update_rankings_def Let_def case_prod_unfold comp_def)

lemma keys_dict_set: "distinct (map fst ds) \<Longrightarrow> distinct (map fst (dict_set ds k x))"
  by (auto simp: dict_set_def dict_mem_def comp_def case_prod_unfold if_distrib[of fst]
      cong: if_cong)

lemma keys_update_donor_stats:
  "distinct (dict_keys ds) \<Longrightarrow> distinct (dict_keys (update_donor_stats ops ds gift v now))"
  by (simp add: update_donor_stats_def Let_def dict_keys_def keys_update_rankings
      keys_dict_set comp_def case_prod_unfold if_distrib[of fst] cong: if_cong)

lemma sorted_update_rankings:
  "donors_by_value (update_rankings ds)
     = map (\<lambda>(k, d). (k, d\<lparr>contribution_rank :=
              int (position_of k (dict_keys (donors_by_value ds))) + 1\<rparr>)) (donors_by_value ds)"
  by (simp add: donors_by_value_def update_rankings_def Let_def sorted_reverse_def sort_key_map
      comp_def case_prod_unfold)

lemma ranks_update_rankings:
  assumes "distinct (map fst ds)"
  shows "map (contribution_rank \<circ> snd) (donors_by_value (update_rankings ds))
     = map int [1..<Suc (length ds)]"
proof -
  let ?S = "donors_by_value ds"
  let ?ks = "dict_keys ?S"
  have d: "distinct ?ks"
    using assms by (simp add: dict_keys_def donors_by_value_def keys_sorted_reverse)
  have len: "length ?ks = length ds"
    by (simp add: dict_keys_def donors_by_value_def sorted_reverse_def)
  have "map (contribution_rank \<circ> snd) (donors_by_value (update_rankings ds))
      = map (\<lambda>k. int k + 1) (map (\<lambda>k. position_of k ?ks) ?ks)"
    by (simp add: sorted_update_rankings comp_def case_prod_unfold dict_keys_def)
  also have "\<dots> = map (\<lambda>k. int k + 1) [0..<length ds]"
    using positions_of_distinct[OF d] len by simp
  also have "\<dots> = map int (map Suc [0..<length ds])"
    by simp
  also have "\<dots> = map int [1..<Suc (length ds)]"
    by (simp only: map_Suc_upt One_nat_def)
  finally show ?thesis .
qed


lemma update_donor_stats_ranked:
  "\<exists>ds2. update_donor_stats ops ds gift v now = update_rankings ds2
     \<and> (distinct (dict_keys ds) \<longrightarrow> distinct (map fst ds2))"
  by (auto simp: update_donor_stats_def Let_def dict_keys_def keys_dict_set comp_def
      case_prod_unfold if_distrib[of fst] cong: if_cong)


text \<open>
  C6, as stated, fails on the tie-break: \<open>_update_rankings\<close> sorts on \<open>total_value\<close>
  alone. After donor A gives 2, donor B gives 5 and donor A gives 3, both have given 5
  and the last gift of B is the earlier one, yet A, whose entry is the older one in the
  dict, has rank 1 and B has rank 2.
\<close>

theorem rank_tie_ignores_last_gift_time:
  "map total_value (dict_values three_gifts) = [5, 5]
   \<and> map last_gift_time (dict_values three_gifts)
       = [ascii ''2024-05-01T20:00:03'', ascii ''2024-05-01T20:00:02'']
   \<and> ascii ''2024-05-01T20:00:02'' < ascii ''2024-05-01T20:00:03''
   \<and> map contribution_rank (dict_values three_gifts) = [1, 2]"
  by (simp add: three_gifts_eq dict_values_def) (simp add: ascii_def)


text \<open>
  C6, amended: whenever \<open>_update_donor_stats\<close> runs, every donor's rank is recomputed
  as the position, counted from 1, in the stable descending sort of the donors on
  \<open>total_value\<close>: listed in that order the donors carry the ranks 1, 2, ..., the order
  is descending in \<open>total_value\<close>, and donors of equal \<open>total_value\<close> are in the
  order of their entries in the dict (the donor first seen comes first).
\<close>

theorem ranks_follow_stable_sort:
  assumes "distinct (dict_keys ds)"
  shows "distinct (dict_keys (update_donor_stats ops ds gift v now))
     \<and> set (donors_by_value (update_donor_stats ops ds gift v now))
         = set (update_donor_stats ops ds gift v now)
     \<and> length (donors_by_value (update_donor_stats ops ds gift v now))
         = length (update_donor_stats ops ds gift v now)
     \<and> map (contribution_rank \<circ> snd) (donors_by_value (update_donor_stats ops ds gift v now))
         = map int [1..<Suc (length (update_donor_stats ops ds gift v now))]
     \<and> (\<forall>i j. i \<le> j \<longrightarrow> j < length (update_donor_stats ops ds gift v now) \<longrightarrow>
           total_value (snd (donors_by_value (update_donor_stats ops ds gift v now) ! j))
             \<le> total_value (snd (donors_by_value (update_donor_stats ops ds gift v now) ! i)))
     \<and> (\<forall>x. filter (\<lambda>(k, d). total_value d = x)
                 (donors_by_value (update_donor_stats ops ds gift v now))
             = filter (\<lambda>(k, d). total_value d = x) (update_donor_stats ops ds gift v now))"
proof -
  let ?u = "update_donor_stats ops ds gift v now"
  from update_donor_stats_ranked[of ops ds gift v now] assms obtain ds2 where
    u: "?u = update_rankings ds2" and d2: "distinct (map fst ds2)"
    by blast
  have len: "length ?u = length ds2"
    by (simp add: u update_rankings_def Let_def)
  have ranks: "map (contribution_rank \<circ> snd) (donors_by_value ?u) = map int [1..<Suc (length ?u)]"
    unfolding len unfolding u by (rule ranks_update_rankings[OF d2])
  have desc: "\<forall>i j. i \<le> j \<longrightarrow> j < length ?u \<longrightarrow>
           total_value (snd (donors_by_value ?u ! j)) \<le> total_value (snd (donors_by_value ?u ! i))"
    using sorted_reverse_descending[of _ _ ?u "\<lambda>(k, d). total_value d"]
    by (simp add: donors_by_value_def case_prod_unfold)
  have stable: "\<forall>x. filter (\<lambda>(k, d). total_value d = x) (donors_by_value ?u)
             = filter (\<lambda>(k, d). total_value d = x) ?u"
    using sorted_reverse_stable[of "\<lambda>(k, d). total_value d" _ ?u]
    by (simp add: donors_by_value_def case_prod_unfold)
  show ?thesis
    using keys_update_donor_stats[OF assms, of ops gift v now] ranks desc stable
    by (simp add: donors_by_value_def set_sorted_reverse sorted_reverse_def)
qed

theorem ranks_follow_stable_sort_witness:
  "distinct (dict_keys two_gifts)
   \<and> update_donor_stats small_ops two_gifts gift_A2 3 (ascii ''2024-05-01T20:00:03'') = three_gifts
   \<and> map (contribution_rank \<circ> snd) (donors_by_value three_gifts) = [1, 2]
   \<and> dict_keys (donors_by_value three_gifts) = [ascii ''mock_A'', ascii ''mock_B'']"
proof -
  have t: "two_gifts =
     [(ascii ''mock_A'', \<lparr>user_id_ds = ascii ''A'', username_ds = ascii ''A'',
         platform_ds = ascii ''mock'', total_value = 2, total_gifts = 1,
         last_gift_time = ascii ''2024-05-01T20:00:01'', contribution_rank = 2\<rparr>),
      (ascii ''mock_B'', \<lparr>user_id_ds = ascii ''B'', username_ds = ascii ''B'',
         platform_ds = ascii ''mock'', total_value = 5, total_gifts = 1,
         last_gift_time = ascii ''2024-05-01T20:00:02'', contribution_rank = 1\<rparr>)]"
    by (simp add: two_gifts_def gift_A1_def gift_B_def gift_of_def
      update_donor_stats_def update_rankings_def sorted_reverse_def donor_key_def small_ops_def
      dict_set_def dict_mem_def dict_keys_def ascii_def Let_def)
  have d: "distinct (dict_keys two_gifts)"
    by (simp add: t dict_keys_def ascii_def)
  have u: "update_donor_stats small_ops two_gifts gift_A2 3 (ascii ''2024-05-01T20:00:03'') = three_gifts"
    by (simp add: three_gifts_def two_gifts_def)
  have k: "dict_keys (donors_by_value three_gifts) = [ascii ''mock_A'', ascii ''mock_B'']"
    by (simp add: three_gifts_eq donors_by_value_def sorted_reverse_def dict_keys_def)
  have l: "length three_gifts = 2" by (simp add: three_gifts_eq)
  from ranks_follow_stable_sort [OF d, of small_ops gift_A2 3 "ascii ''2024-05-01T20:00:03''"]
  have "map (contribution_rank \<circ> snd) (donors_by_value three_gifts)
         = map int [1..<Suc (length three_gifts)]"
    unfolding u by blast
  then have "map (contribution_rank \<circ> snd) (donors_by_value three_gifts) = [1, 2]"
    unfolding l by (simp add: upt_rec)
  with d u k show ?thesis by simp
qed

section \<open>Properties of the Leaderboard\<close>

subsection \<open>Saving and loading\<close>




lemma type_values_distinct:
  "type_value CONTRIBUTION \<noteq> type_value VOTE_PARTICIPATION"
  "type_value CONTRIBUTION \<noteq> type_value LUCKY"
  "type_value VOTE_PARTICIPATION \<noteq> type_value LUCKY"
  "type_value VOTE_PARTICIPATION \<noteq> type_value CONTRIBUTION"
  "type_value LUCKY \<noteq> type_value CONTRIBUTION"
  "type_value LUCKY \<noteq> type_value VOTE_PARTICIPATION"
  "type_value GAME_PROGRESS \<noteq> type_value CONTRIBUTION"
  "type_value GAME_PROGRESS \<noteq> type_value VOTE_PARTICIPATION"
  "type_value GAME_PROGRESS \<noteq> type_value LUCKY"
  by (simp_all add: ascii_def)









lemma keys_dict_set_same: "dict_mem k d \<Longrightarrow> map fst (dict_set d k v) = map fst d"
  by (induction d) (auto simp: dict_set_def dict_mem_def)

lemma distinct_dict_set: "distinct (map fst d) \<Longrightarrow> distinct (map fst (dict_set d k v))"
  by (cases "dict_mem k d") (auto simp: keys_dict_set_same, auto simp: dict_set_def dict_mem_def)




lemma distinct_dict_of_items: "distinct (map fst (dict_of_items kvs))"
proof -
  have "distinct (map fst d) \<Longrightarrow> distinct (map fst (foldl (\<lambda>d (k, v). dict_set d k v) d kvs))"
    for d :: "('a \<times> 'b) list"
    by (induction kvs arbitrary: d) (auto simp: distinct_dict_set)
  from this[of "[]"] show ?thesis by (simp add: dict_of_items_def)
qed

lemma boards_dict_set_ok:
  assumes "dict_mem t bs" and "list_all (\<lambda>(t, b). distinct (dict_keys b)) bs"
    and "distinct (dict_keys x)"
  shows "map fst (dict_set bs t x) = map fst bs
     \<and> list_all (\<lambda>(t, b). distinct (dict_keys b)) (dict_set bs t x)"
  using assms
  by (auto simp: keys_dict_set_same dict_set_def list_all_iff split: if_splits)

lemma load_boards_ok:
  assumes "list_all (\<lambda>(t, b). distinct (dict_keys b)) bs"
  shows "map fst (fst (load_boards now bs fb)) = map fst bs
     \<and> list_all (\<lambda>(t, b). distinct (dict_keys b)) (fst (load_boards now bs fb))"
  using assms
proof (induction fb arbitrary: bs)
  case Nil
  then show ?case by simp
next
  case (Cons a fb)
  obtain t entries where a: "a = (t, entries)" by (cases a)
  show ?case
  proof (cases "dict_mem t bs")
    case False
    with Cons show ?thesis by (simp add: a)
  next
    case True
    show ?thesis
    proof (cases entries)
      case (JObj items)
      show ?thesis
      proof (cases "entries_of now items")
        case (Inl e)
        with True JObj Cons.prems show ?thesis by (simp add: a)
      next
        case (Inr es)
        have x: "distinct (dict_keys (dict_of_items es))"
          by (simp add: dict_keys_def distinct_dict_of_items)
        note o = boards_dict_set_ok[OF True Cons.prems x]
        from Cons.IH[of "dict_set bs t (dict_of_items es)"] o True JObj Inr
        show ?thesis by (simp add: a)
      qed
    qed (use True Cons.prems in \<open>simp_all add: a\<close>)
  qed
qed

lemma boards_after_load:
  "boards (load s now) = boards s
     \<or> (\<exists>fb. boards (load s now) = fst (load_boards now (boards s) fb))"
proof (cases "save_file s")
  case NoFile
  then show ?thesis by (simp add: load_def)
next
  case Truncated
  then show ?thesis by (simp add: load_def)
next
  case (Holds j)
  show ?thesis
  proof (cases j)
    case (JObj data)
    show ?thesis
    proof (cases "case dict_get data (ascii ''boards'') of
                   None \<Rightarrow> Some []
                 | Some (JObj bs) \<Rightarrow> Some bs
                 | Some _ \<Rightarrow> None")
      case None
      with Holds JObj show ?thesis by (simp add: load_def)
    next
      case (Some fb)
      obtain bs ok where l: "load_boards now (boards s) fb = (bs, ok)"
        by (cases "load_boards now (boards s) fb")
      have "boards (load s now) = bs"
        using Holds JObj Some l
        by (cases ok)
          (simp_all add: load_def Let_def split: option.splits json.splits sum.splits)
      with l show ?thesis by (metis fst_conv)
    qed
  qed (use Holds in \<open>simp_all add: load_def\<close>)
qed

lemma load_ok:
  assumes "leaderboard_ok s"
  shows "leaderboard_ok (load s now)"
proof -
  from assms have d: "list_all (\<lambda>(t, b). distinct (dict_keys b)) (boards s)"
    by (simp add: leaderboard_ok_def)
  from boards_after_load[of s now] show ?thesis
  proof
    assume "boards (load s now) = boards s"
    with assms show ?thesis by (simp add: leaderboard_ok_def)
  next
    assume "\<exists>fb. boards (load s now) = fst (load_boards now (boards s) fb)"
    then obtain fb where "boards (load s now) = fst (load_boards now (boards s) fb)" ..
    with load_boards_ok[OF d, of now fb] assms show ?thesis
      by (simp add: leaderboard_ok_def dict_keys_def)
  qed
qed

lemma new_leaderboard_ok: "leaderboard_ok (new_leaderboard f now)"
  unfolding new_leaderboard_def
  by (rule load_ok) (simp add: leaderboard_ok_def empty_boards_def dict_keys_def)







subsection \<open>Vote participation\<close>



section \<open>Properties of the response parser\<close>

lemma numbered_options_none:
  "list_all (\<lambda>line. re_match re option_pattern2 (strip line) = None) lines
     \<Longrightarrow> numbered_options re opts lines = opts"
  by (induction lines arbitrary: opts) simp_all

text \<open>
  C9: whatever the regular expressions answer, the option list that
  \<open>_parse_story_response\<close> returns is not empty. When the tag pattern yields no
  option that is not blank and no line matches the numbered pattern, the list is the
  fixed one of three default options.
\<close>

theorem options_never_empty:
  "snd (parse_story_response re response) \<noteq> []
   \<and> default_options \<noteq> []
   \<and> (filter (\<lambda>opt. strip opt \<noteq> []) (re_findall re option_pattern response True) = []
        \<and> list_all (\<lambda>line. re_match re option_pattern2 (strip line) = None)
              (split_lines response)
       \<longrightarrow> snd (parse_story_response re response) = default_options)"
  by (simp add: parse_story_response_def Let_def default_options_def numbered_options_none)

theorem options_never_empty_witness:
  "filter (\<lambda>opt. strip opt \<noteq> [])
       (re_findall plain_text_engine option_pattern (ascii ''You walk on.'') True) = []
   \<and> list_all (\<lambda>line. re_match plain_text_engine option_pattern2 (strip line) = None)
         (split_lines (ascii ''You walk on.''))
   \<and> snd (parse_story_response plain_text_engine (ascii ''You walk on.'')) = default_options
   \<and> length default_options = 3"
proof -
  have a: "filter (\<lambda>opt. strip opt \<noteq> [])
       (re_findall plain_text_engine option_pattern (ascii ''You walk on.'') True) = []"
    by (simp add: plain_text_engine_def)
  have b: "list_all (\<lambda>line. re_match plain_text_engine option_pattern2 (strip line) = None)
         (split_lines (ascii ''You walk on.''))"
    by (simp add: plain_text_engine_def list_all_iff)
  from options_never_empty [of plain_text_engine "ascii ''You walk on.''"] a b
  show ?thesis by (simp add: default_options_def)
qed

section \<open>Properties of player.py\<close>

text \<open>
  C10, as stated, for every amount: the returned values are as the claim says, but the
  range invariant is not preserved when the amount is negative. Healing a player at
  10 of 100 hp by -20 leaves hp at -10.
\<close>

theorem heal_negative_leaves_range:
  "player_in_range wounded_player \<and> \<not> player_in_range (snd (heal wounded_player (- 20)))"
  by (simp add: player_in_range_def wounded_player_def heal_def)

text \<open>
  C10, amended: for a player in range and a non-negative amount (damage), \<open>heal\<close> and
  \<open>restore_mp\<close> clamp at the maximum and return the amount actually restored,
  \<open>take_damage\<close> floors hp at 0 and returns whether hp reached 0, and each of the three
  keeps \<open>0 \<le> hp \<le> max_hp\<close> and \<open>0 \<le> mp \<le> max_mp\<close>.
\<close>

theorem player_ops_keep_range:
  assumes "player_in_range p" and "0 \<le> amount"
  shows "hp (snd (heal p amount)) = min (max_hp p) (hp p + amount)
    \<and> fst (heal p amount) = min (max_hp p) (hp p + amount) - hp p
    \<and> player_in_range (snd (heal p amount))
    \<and> mp (snd (restore_mp p amount)) = min (max_mp p) (mp p + amount)
    \<and> fst (restore_mp p amount) = min (max_mp p) (mp p + amount) - mp p
    \<and> player_in_range (snd (restore_mp p amount))
    \<and> hp (snd (take_damage p amount)) = max 0 (hp p - amount)
    \<and> (fst (take_damage p amount) \<longleftrightarrow> hp (snd (take_damage p amount)) = 0)
    \<and> player_in_range (snd (take_damage p amount))"
  using assms
  by (auto simp add: player_in_range_def heal_def restore_mp_def take_damage_def Let_def)

theorem player_ops_keep_range_witness:
  "player_in_range wounded_player \<and> (0::int) \<le> 95
   \<and> fst (heal wounded_player 95) = 90
   \<and> player_in_range (snd (heal wounded_player 95))
   \<and> player_in_range (snd (restore_mp wounded_player 95))
   \<and> fst (take_damage wounded_player 95)
   \<and> player_in_range (snd (take_damage wounded_player 95))"
proof -
  have r: "player_in_range wounded_player"
    by (simp add: player_in_range_def wounded_player_def)
  have a: "(0::int) \<le> 95" by simp
  show ?thesis
    using r a player_ops_keep_range [OF r a]
    by (simp add: wounded_player_def)
qed

end
